theory Spec2Isabelle
  imports Complex_Main "HOL-Library.Sublist"
begin

section \<open>Errors\<close>

text \<open>
  The Python exceptions that the modelled code can raise. \<open>NonFinite\<close> is not an
  exception: it marks \<open>np.mean\<close> of an empty list, which is the scalar \<open>nan\<close> and
  not an array.
\<close>

datatype py_error =
    ValueError string
  | IndexError
  | ZeroDivisionError
  | OverflowError
  | TypeError
  | LinAlgError
  | SimulatorError
  | NonFinite

text \<open>
  Numbers are modelled in exact real arithmetic: the rounding of a float is not
  represented. The range of a double is represented where it decides what the code
  does: a float result is a real number or, as \<open>NonFin\<close>, one of \<open>nan\<close>, \<open>inf\<close>
  and \<open>-inf\<close>, none of which is an exception.
\<close>

datatype pyfloat = Fin real | NonFin

definition bind_err :: "py_error + 'a \<Rightarrow> ('a \<Rightarrow> py_error + 'b) \<Rightarrow> py_error + 'b" where
  "bind_err m f = (case m of Inl e \<Rightarrow> Inl e | Inr v \<Rightarrow> f v)"

text \<open>A list comprehension whose body may raise: the first exception ends it.\<close>

fun map_err :: "('a \<Rightarrow> py_error + 'b) \<Rightarrow> 'a list \<Rightarrow> py_error + 'b list" where
  "map_err f [] = Inr []"
| "map_err f (x # xs) =
     (case f x of Inl e \<Rightarrow> Inl e
      | Inr y \<Rightarrow> (case map_err f xs of Inl e \<Rightarrow> Inl e | Inr ys \<Rightarrow> Inr (y # ys)))"

section \<open>snn\_function\_generation.py: dist\<close>

text \<open>
  \<^verbatim>\<open>
  def dist(x: int, method: str = "inverse", zero_val: float = 1.0, inverse_pow: float = 1.0) -> float:
      if method == "inverse":
          return 1/x**inverse_pow if x > 0 else zero_val
      if method == "exp":
          return np.exp(-x) if x > 0 else zero_val
      else:
          raise ValueError("Invalid method.")
  \<close>
  \<open>x\<close> is a Python integer. In \<open>x**inverse_pow\<close> it is converted to a double (an
  OverflowError when it is too large) and raised to the power, for \<open>x > 0\<close> the real
  power \<open>powr\<close>: a result beyond the largest double is an OverflowError, a result that
  rounds to \<open>0.0\<close> is returned as \<open>0.0\<close>, and \<open>1/0.0\<close> is a ZeroDivisionError. A
  quotient beyond the largest double is \<open>inf\<close>. The bounds are those of rounding to
  the nearest double: \<open>2^1024 - 2^970\<close> and above rounds to infinity, \<open>2^-1075\<close> and
  below to zero. \<open>np.exp\<close> takes an integer of the 64-bit range; on another Python
  integer it raises a TypeError.
\<close>

definition dbl_overflow :: "real \<Rightarrow> bool" where
  "dbl_overflow v \<longleftrightarrow> 2 ^ 1024 - 2 ^ 970 \<le> v"

definition dbl_underflow :: "real \<Rightarrow> bool" where
  "dbl_underflow v \<longleftrightarrow> v \<le> 1 / 2 ^ 1075"

definition float_pow :: "int \<Rightarrow> real \<Rightarrow> py_error + real" where
  "float_pow x p =
     (if dbl_overflow (real_of_int x) then Inl OverflowError
      else if dbl_overflow (real_of_int x powr p) then Inl OverflowError
      else if dbl_underflow (real_of_int x powr p) then Inr 0
      else Inr (real_of_int x powr p))"

definition float_recip :: "real \<Rightarrow> py_error + pyfloat" where
  "float_recip w =
     (if w = 0 then Inl ZeroDivisionError
      else if dbl_overflow (1 / w) then Inr NonFin
      else Inr (Fin (1 / w)))"

definition np_exp :: "int \<Rightarrow> py_error + pyfloat" where
  "np_exp n =
     (if n < - (2 ^ 63) \<or> 2 ^ 64 \<le> n then Inl TypeError
      else if dbl_overflow (exp (real_of_int n)) then Inr NonFin
      else Inr (Fin (exp (real_of_int n))))"

definition dist :: "int \<Rightarrow> string \<Rightarrow> real \<Rightarrow> real \<Rightarrow> py_error + pyfloat" where
  "dist x method zero_val inverse_pow =
     (if method = ''inverse'' then
        (if x > 0 then bind_err (float_pow x inverse_pow) float_recip else Inr (Fin zero_val))
      else if method = ''exp'' then
        (if x > 0 then np_exp (- x) else Inr (Fin zero_val))
      else Inl (ValueError ''Invalid method.''))"

section \<open>bifurcation\_rs.py, bifurcation\_fs.py: auto\_dir\<close>

text \<open>
  \<^verbatim>\<open>
  path = sys.argv[-1]
  auto_dir = path if type(path) is str and ".py" not in path else "~/PycharmProjects/auto-07p"
  \<close>
  \<open>sys.argv\<close> is a list of strings, so \<open>type(path) is str\<close> holds for every entry;
  \<open>sys.argv[-1]\<close> raises IndexError on an empty list. Python's \<open>sub in s\<close> on strings
  is the contiguous-substring test.
\<close>

fun starts_with :: "string \<Rightarrow> string \<Rightarrow> bool" where
  "starts_with [] s = True"
| "starts_with (c # cs) [] = False"
| "starts_with (c # cs) (d # ds) = (c = d \<and> starts_with cs ds)"

fun str_contains :: "string \<Rightarrow> string \<Rightarrow> bool" where
  "str_contains sub [] = starts_with sub []"
| "str_contains sub (d # ds) = (starts_with sub (d # ds) \<or> str_contains sub ds)"

definition default_auto_dir :: string where
  "default_auto_dir = ''~/PycharmProjects/auto-07p''"

definition auto_dir :: "string list \<Rightarrow> py_error + string" where
  "auto_dir argv =
     (if argv = [] then Inl IndexError
      else (let path = last argv
            in Inr (if \<not> str_contains ''.py'' path then path else default_auto_dir)))"

section \<open>Arrays\<close>

text \<open>
  A 1-D array is a list of reals, a 2-D array the list of its rows. Arrays are
  rectangular; an axis of size zero next to a non-zero one is not represented (a matrix
  without rows has no column count), so the statements below take at least one row and
  one column where the shape matters.
\<close>

type_synonym vec = "real list"
type_synonym matrix = "real list list"

definition ncols :: "matrix \<Rightarrow> nat" where
  "ncols M = (case M of [] \<Rightarrow> 0 | row # _ \<Rightarrow> length row)"

definition is_mat :: "nat \<Rightarrow> nat \<Rightarrow> matrix \<Rightarrow> bool" where
  "is_mat r c M \<longleftrightarrow> length M = r \<and> list_all (\<lambda>row. length row = c) M"

definition zeros :: "nat \<Rightarrow> nat \<Rightarrow> matrix" where
  "zeros r c = replicate r (replicate c 0)"

definition eye :: "nat \<Rightarrow> matrix" where
  "eye n = map (\<lambda>i. map (\<lambda>j. if i = j then 1 else 0) [0..<n]) [0..<n]"

definition transpose_m :: "matrix \<Rightarrow> matrix" where
  "transpose_m M = map (\<lambda>j. map (\<lambda>row. row ! j) M) [0..<ncols M]"

definition dot :: "vec \<Rightarrow> vec \<Rightarrow> real" where
  "dot u v = sum_list (map2 (*) u v)"

definition shape_error :: py_error where
  "shape_error = ValueError ''shapes not aligned''"

text \<open>The operator \<open>@\<close> of numpy, for the three combinations of ranks the script uses.\<close>

definition matmul :: "matrix \<Rightarrow> matrix \<Rightarrow> py_error + matrix" where
  "matmul A B =
     (if list_all (\<lambda>row. length row = length B) A
      then Inr (map (\<lambda>row. map (dot row) (transpose_m B)) A)
      else Inl shape_error)"

definition mat_vec :: "matrix \<Rightarrow> vec \<Rightarrow> py_error + vec" where
  "mat_vec A v =
     (if list_all (\<lambda>row. length row = length v) A
      then Inr (map (\<lambda>row. dot row v) A)
      else Inl shape_error)"

definition vec_mat :: "vec \<Rightarrow> matrix \<Rightarrow> py_error + vec" where
  "vec_mat v B =
     (if length v = length B
      then Inr (map (dot v) (transpose_m B))
      else Inl shape_error)"

definition mat_add :: "matrix \<Rightarrow> matrix \<Rightarrow> matrix" where
  "mat_add A B = map2 (map2 (+)) A B"

definition mat_sub :: "matrix \<Rightarrow> matrix \<Rightarrow> matrix" where
  "mat_sub A B = map2 (map2 (-)) A B"

definition mat_scale :: "real \<Rightarrow> matrix \<Rightarrow> matrix" where
  "mat_scale a M = map (map ((*) a)) M"

fun mat_sum :: "matrix list \<Rightarrow> matrix" where
  "mat_sum [] = []"
| "mat_sum [M] = M"
| "mat_sum (M # N # Ms) = mat_add M (mat_sum (N # Ms))"

text \<open>
  \<open>np.mean(Ms, axis=0)\<close> on a Python list of 2-D arrays: the list is stacked into a 3-D
  array (a ValueError when the shapes differ) and the entries are averaged over the list.
  On an empty list the result is the scalar \<open>nan\<close>.
\<close>

definition mean_axis0 :: "matrix list \<Rightarrow> py_error + matrix" where
  "mean_axis0 Ms =
     (case Ms of [] \<Rightarrow> Inl NonFinite
      | M # _ \<Rightarrow>
          if list_all (is_mat (length M) (ncols M)) Ms
          then Inr (map (map (\<lambda>v. v / real (length Ms))) (mat_sum Ms))
          else Inl (ValueError ''inhomogeneous shape''))"

section \<open>snn\_function\_generation.py: mse\<close>

text \<open>
  \<^verbatim>\<open>
  def mse(x: np.ndarray, y: np.ndarray) -> float:
      x = x.squeeze() / np.max(x.flatten())
      y = y.squeeze() / np.max(y.flatten())
      return float(np.mean((x - y)**2))
  \<close>
  The function is called with arrays of rank 1 and of rank 2, so its arguments are
  modelled as arrays of rank 0, 1 or 2.
\<close>

datatype ndarray = Arr0 real | Arr1 vec | Arr2 matrix

fun flatten :: "ndarray \<Rightarrow> real list" where
  "flatten (Arr0 a) = [a]"
| "flatten (Arr1 v) = v"
| "flatten (Arr2 M) = concat M"

fun amap :: "(real \<Rightarrow> real) \<Rightarrow> ndarray \<Rightarrow> ndarray" where
  "amap f (Arr0 a) = Arr0 (f a)"
| "amap f (Arr1 v) = Arr1 (map f v)"
| "amap f (Arr2 M) = Arr2 (map (map f) M)"

text \<open>
  \<open>squeeze\<close> drops every axis of length one; the entries keep their (row-major) order,
  so a single row or a single column becomes the list of its entries.
\<close>

fun squeeze :: "ndarray \<Rightarrow> ndarray" where
  "squeeze (Arr0 a) = Arr0 a"
| "squeeze (Arr1 v) = (if length v = 1 then Arr0 (hd v) else Arr1 v)"
| "squeeze (Arr2 M) =
     (if length M = 1 \<and> ncols M = 1 then Arr0 (hd (concat M))
      else if length M = 1 \<or> ncols M = 1 then Arr1 (concat M)
      else Arr2 M)"

fun max_list :: "real list \<Rightarrow> real" where
  "max_list [] = 0"
| "max_list [a] = a"
| "max_list (a # b # bs) = max a (max_list (b # bs))"

text \<open>\<open>np.max\<close> raises a ValueError on an array without elements.\<close>

definition np_max :: "real list \<Rightarrow> py_error + real" where
  "np_max xs = (if xs = [] then Inl (ValueError ''zero-size array'') else Inr (max_list xs))"

text \<open>
  Broadcasting of \<open>x - y\<close>: the shapes are aligned at their last axis, and two axis
  lengths fit when they are equal or one of them is 1.
\<close>

definition sub_row :: "vec \<Rightarrow> vec \<Rightarrow> py_error + vec" where
  "sub_row u v =
     (if length u = length v then Inr (map2 (-) u v)
      else if length u = 1 then Inr (map (\<lambda>b. hd u - b) v)
      else if length v = 1 then Inr (map (\<lambda>a. a - hd v) u)
      else Inl shape_error)"

fun sub_bc :: "ndarray \<Rightarrow> ndarray \<Rightarrow> py_error + ndarray" where
  "sub_bc (Arr0 a) y = Inr (amap (\<lambda>b. a - b) y)"
| "sub_bc (Arr1 u) (Arr0 b) = Inr (Arr1 (map (\<lambda>a. a - b) u))"
| "sub_bc (Arr2 A) (Arr0 b) = Inr (Arr2 (map (map (\<lambda>a. a - b)) A))"
| "sub_bc (Arr1 u) (Arr1 v) = map_sum id Arr1 (sub_row u v)"
| "sub_bc (Arr1 u) (Arr2 B) = map_sum id Arr2 (map_err (\<lambda>row. sub_row u row) B)"
| "sub_bc (Arr2 A) (Arr1 v) = map_sum id Arr2 (map_err (\<lambda>row. sub_row row v) A)"
| "sub_bc (Arr2 A) (Arr2 B) =
     (if length A = length B
        then map_sum id Arr2 (map_err (\<lambda>(ra, rb). sub_row ra rb) (zip A B))
      else if length A = 1
        then map_sum id Arr2 (map_err (\<lambda>rb. sub_row (hd A) rb) B)
      else if length B = 1
        then map_sum id Arr2 (map_err (\<lambda>ra. sub_row ra (hd B)) A)
      else Inl shape_error)"

definition mean_list :: "real list \<Rightarrow> real" where
  "mean_list xs = sum_list xs / real (length xs)"

text \<open>
  A maximum of zero makes the normalised array, and with it the result, \<open>nan\<close> or
  \<open>inf\<close>: every entry is then \<open>\<le> 0\<close> and is divided by zero. This raises nothing,
  the function returns the non-finite float. The exceptions are the ValueError of
  \<open>np.max\<close> on an array without elements and that of \<open>x - y\<close> on shapes that do
  not fit.
\<close>

definition mse :: "ndarray \<Rightarrow> ndarray \<Rightarrow> py_error + pyfloat" where
  "mse x y =
     (case np_max (flatten x) of Inl e \<Rightarrow> Inl e
      | Inr mx \<Rightarrow>
     (case np_max (flatten y) of Inl e \<Rightarrow> Inl e
      | Inr my \<Rightarrow>
     (case sub_bc (amap (\<lambda>a. a / mx) (squeeze x)) (amap (\<lambda>b. b / my) (squeeze y)) of
        Inl e \<Rightarrow> Inl e
      | Inr d \<Rightarrow>
          if mx = 0 \<or> my = 0 then Inr NonFin
          else Inr (Fin (mean_list (map (\<lambda>v. v ^ 2) (flatten d)))))))"

section \<open>snn\_function\_generation.py: get\_c and the network kernel\<close>

text \<open>
  \<^verbatim>\<open>
  def get_c(X: np.ndarray, alpha: float = 1e-4):
      return X @ X.T + alpha*np.eye(X.shape[0])
  \<close>
\<close>

definition get_c :: "matrix \<Rightarrow> real \<Rightarrow> py_error + matrix" where
  "get_c X alpha =
     bind_err (matmul X (transpose_m X))
       (\<lambda>XXT. Inr (mat_add XXT (mat_scale alpha (eye (length X)))))"

text \<open>
  \<^verbatim>\<open>
  cs = []
  for s in train_signals:
      ...
      cs.append(get_c(s, alpha=gamma))
  s_mean = np.mean(train_signals, axis=0)
  s_var = np.mean([s_i - s_mean for s_i in train_signals], axis=0)
  C_inv = np.linalg.inv(np.mean(cs, axis=0))
  w = C_inv @ s_mean
  K = s_mean.T @ w
  G = s_var.T @ w
  \<close>
  \<open>np.linalg.inv\<close> belongs to numpy and is a parameter \<open>np_inv\<close> of the model; it raises
  LinAlgError on a singular matrix. Without training signals the three means are the
  scalar \<open>nan\<close>, which \<open>np.linalg.inv\<close> rejects with a LinAlgError. The dimensionality
  estimate of the same loop (\<open>np.cov\<close>, \<open>np.linalg.eigvals\<close>) only feeds a plot title
  and is left out.
\<close>

record kernel_res =
  kr_s_mean :: matrix
  kr_s_var :: matrix
  kr_C_inv :: matrix
  kr_w :: matrix
  kr_K :: matrix
  kr_G :: matrix

definition s_var_of :: "matrix list \<Rightarrow> matrix \<Rightarrow> py_error + matrix" where
  "s_var_of train_signals s_mean =
     mean_axis0 (map (\<lambda>s_i. mat_sub s_i s_mean) train_signals)"

definition kernel ::
  "(matrix \<Rightarrow> py_error + matrix) \<Rightarrow> matrix list \<Rightarrow> real \<Rightarrow> py_error + kernel_res" where
  "kernel np_inv train_signals gamma =
     (if train_signals = [] then Inl LinAlgError
      else
        bind_err (map_err (\<lambda>s. get_c s gamma) train_signals) (\<lambda>cs.
        bind_err (mean_axis0 train_signals) (\<lambda>s_mean.
        bind_err (s_var_of train_signals s_mean) (\<lambda>s_var.
        bind_err (mean_axis0 cs) (\<lambda>C_mean.
        bind_err (np_inv C_mean) (\<lambda>C_inv.
        bind_err (matmul C_inv s_mean) (\<lambda>w.
        bind_err (matmul (transpose_m s_mean) w) (\<lambda>K.
        bind_err (matmul (transpose_m s_var) w) (\<lambda>G.
          Inr \<lparr>kr_s_mean = s_mean, kr_s_var = s_var, kr_C_inv = C_inv,
               kr_w = w, kr_K = K, kr_G = G\<rparr>)))))))))"

section \<open>snn\_function\_generation.py: prediction and error per target\<close>

text \<open>
  \<^verbatim>\<open>
  for target in targets:
      train_predictions.append(K @ target)
      train_distortions.append(G @ target)
      w_readout = w @ target
      readouts.append(w_readout)
      test_predictions.append([w_readout @ test_sig for test_sig in test_signals])
      mses.append([mse(target, test_sig) for test_sig in test_signals])
  \<close>
  The five result lists grow together, one entry per target; the model keeps the five
  entries of one target in one record.
\<close>

record target_eval =
  train_prediction :: vec
  train_distortion :: vec
  readout :: vec
  test_prediction :: "vec list"
  mses :: "pyfloat list"

definition eval_target :: "kernel_res \<Rightarrow> matrix list \<Rightarrow> vec \<Rightarrow> py_error + target_eval" where
  "eval_target kr test_signals target =
     bind_err (mat_vec (kr_K kr) target) (\<lambda>tp.
     bind_err (mat_vec (kr_G kr) target) (\<lambda>td.
     bind_err (mat_vec (kr_w kr) target) (\<lambda>w_readout.
     bind_err (map_err (\<lambda>test_sig. vec_mat w_readout test_sig) test_signals) (\<lambda>preds.
     bind_err (map_err (\<lambda>test_sig. mse (Arr1 target) (Arr2 test_sig)) test_signals) (\<lambda>ms.
       Inr \<lparr>train_prediction = tp, train_distortion = td, readout = w_readout,
            test_prediction = preds, mses = ms\<rparr>)))))"

text \<open>
  \<^verbatim>\<open>
  train_signals = [signals[idx] for idx in train_trials]
  test_signals = [signals[idx] for idx in test_trials]
  \<close>
  followed by the kernel and the loop over the targets. The trial indices come from
  \<open>np.arange\<close> and are not negative. The result of a run that gets past the kernel is
  the kernel together with the outcome of the loop over the targets: when the loop
  raises, \<open>K\<close>, \<open>G\<close> and \<open>w\<close> have been computed.
\<close>

definition select :: "'a list \<Rightarrow> nat list \<Rightarrow> py_error + 'a list" where
  "select xs idxs = map_err (\<lambda>i. if i < length xs then Inr (xs ! i) else Inl IndexError) idxs"

definition analysis ::
  "(matrix \<Rightarrow> py_error + matrix) \<Rightarrow> matrix list \<Rightarrow> nat list \<Rightarrow> nat list \<Rightarrow> vec list \<Rightarrow> real
     \<Rightarrow> py_error + kernel_res \<times> (py_error + target_eval list)" where
  "analysis np_inv signals train_trials test_trials targets gamma =
     bind_err (select signals train_trials) (\<lambda>train_signals.
     bind_err (select signals test_trials) (\<lambda>test_signals.
     bind_err (kernel np_inv train_signals gamma) (\<lambda>kr.
       Inr (kr, map_err (eval_target kr test_signals) targets))))"

text \<open>
  A stand-in for \<open>np.linalg.inv\<close> on matrices with one or two rows (the inverse by the
  adjugate), to run the analysis on small concrete inputs.
\<close>

fun inv_small :: "matrix \<Rightarrow> py_error + matrix" where
  "inv_small [[a]] = (if a = 0 then Inl LinAlgError else Inr [[1 / a]])"
| "inv_small [[a, b], [c, d]] =
     (if a * d - b * c = 0 then Inl LinAlgError
      else Inr [[d / (a * d - b * c), - b / (a * d - b * c)],
                [- c / (a * d - b * c), a / (a * d - b * c)]])"
| "inv_small M = Inl LinAlgError"

section \<open>snn\_function\_generation.py: get\_signals\<close>

text \<open>
  \<^verbatim>\<open>
  def get_signals(stim_onsets: list, cycle_steps: int, sr: int, net: Network, y0: dict,
                  inp_indices: np.ndarray, sigma: float = 10.0):
      signals = []
      inputs = []
      start = int(np.round(cycle_steps / sr))
      n = len(stim_onsets)
      for i, stim in enumerate(stim_onsets):
          inp = np.zeros((stim + cycle_steps, N))
          inp[stim:stim + stim_width, inp_indices] = alpha
          inp = gaussian_filter1d(inp, sigma=sigma, axis=0)
          net.reset(y0)
          obs = net.run(inputs=inp, sampling_steps=sr, record_output=True, ...)
          res = obs.to_numpy("out")[-start:, :]
          signals.append(gaussian_filter1d(res, sigma=sigma, axis=0).T)
          inputs.append(inp[::sr, inp_indices[0]][-start:])
      return signals, inputs
  \<close>
  The function reads the module-level \<open>N\<close>, \<open>alpha\<close> and \<open>stim_width\<close>
  (record \<open>globals\<close>). Onsets, lengths and the stride are step counts (\<open>nat\<close>); the
  channel indices are integers, and a negative index counts from the end. The network
  simulator (rectipy) and \<open>gaussian_filter1d\<close> (scipy) are parameters of the model: \<open>sim\<close>
  maps the simulator state, the input and the stride to the recorded output (samples by
  channels) and the next state, or to an error that is passed on unchanged. The field
  \<open>run_log\<close> is a ghost record of the inputs of all calls of \<open>net.run\<close>.
\<close>

record globals =
  g_N :: nat
  g_alpha :: real
  g_stim_width :: nat

record 'st network =
  net_state :: 'st
  run_log :: "matrix list"

definition net_reset :: "'st network \<Rightarrow> 'st \<Rightarrow> 'st network" where
  "net_reset net y0 = net\<lparr>net_state := y0\<rparr>"

definition net_run ::
  "('st \<Rightarrow> matrix \<Rightarrow> nat \<Rightarrow> py_error + matrix \<times> 'st) \<Rightarrow> 'st network \<Rightarrow> matrix \<Rightarrow> nat
     \<Rightarrow> py_error + matrix \<times> 'st network" where
  "net_run sim net inp sr =
     (case sim (net_state net) inp sr of
        Inl e \<Rightarrow> Inl e
      | Inr (obs, st) \<Rightarrow> Inr (obs, net\<lparr>net_state := st, run_log := run_log net @ [inp]\<rparr>))"

text \<open>
  \<open>np.round\<close> rounds to the nearest integer and a tie to the even neighbour;
  \<open>cycle_steps / sr\<close> raises ZeroDivisionError for \<open>sr = 0\<close> (checked in
  \<open>get_signals\<close> below). Line 140 computes \<open>steps\<close> by the same expression.
\<close>

definition round_half_even :: "real \<Rightarrow> int" where
  "round_half_even x =
     (let f = \<lfloor>x\<rfloor>; d = x - of_int f
      in if d < 1 / 2 then f else if d > 1 / 2 then f + 1 else if even f then f else f + 1)"

definition steps_of :: "nat \<Rightarrow> nat \<Rightarrow> nat" where
  "steps_of cycle_steps sr = nat (round_half_even (real cycle_steps / real sr))"

text \<open>
  The slice \<open>xs[-n:]\<close> keeps the last \<open>n\<close> entries, all of them when there are fewer,
  and for \<open>n = 0\<close> it is \<open>xs[0:]\<close>, the whole list. The slice \<open>xs[::k]\<close> keeps the
  entries \<open>0, k, 2k, ...\<close>
\<close>

definition py_last :: "nat \<Rightarrow> 'a list \<Rightarrow> 'a list" where
  "py_last n xs = (if n = 0 then xs else drop (length xs - n) xs)"

definition every_nth :: "nat \<Rightarrow> 'a list \<Rightarrow> 'a list" where
  "every_nth k xs = map (\<lambda>i. xs ! (i * k)) [0..<(length xs + k - 1) div k]"

definition norm_index :: "nat \<Rightarrow> int \<Rightarrow> py_error + nat" where
  "norm_index n i =
     (if 0 \<le> i \<and> i < int n then Inr (nat i)
      else if - int n \<le> i \<and> i < 0 then Inr (nat (i + int n))
      else Inl IndexError)"

text \<open>
  The input before smoothing: \<open>stim + cycle_steps\<close> rows of \<open>N\<close> zeros, with
  \<open>alpha\<close> written to the given columns of the rows \<open>stim, ..., stim + stim_width - 1\<close>
  (a slice ends at the last row). An index outside \<open>-N, ..., N - 1\<close> is an IndexError.
\<close>

definition pulse :: "nat \<Rightarrow> real \<Rightarrow> nat \<Rightarrow> nat \<Rightarrow> nat \<Rightarrow> nat list \<Rightarrow> matrix" where
  "pulse n a width stim cycle_steps cols =
     map (\<lambda>(t, row). if stim \<le> t \<and> t < stim + width
                       then fold (\<lambda>j r. r[j := a]) cols row else row)
       (enumerate 0 (zeros (stim + cycle_steps) n))"

definition stimulus :: "globals \<Rightarrow> nat \<Rightarrow> nat \<Rightarrow> int list \<Rightarrow> py_error + matrix" where
  "stimulus g stim cycle_steps inp_indices =
     bind_err (map_err (norm_index (g_N g)) inp_indices)
       (\<lambda>cols. Inr (pulse (g_N g) (g_alpha g) (g_stim_width g) stim cycle_steps cols))"

definition input_trace :: "globals \<Rightarrow> matrix \<Rightarrow> nat \<Rightarrow> int list \<Rightarrow> nat \<Rightarrow> py_error + vec" where
  "input_trace g inp sr inp_indices start =
     (case inp_indices of
        [] \<Rightarrow> Inl IndexError
      | i0 # _ \<Rightarrow>
          bind_err (norm_index (g_N g) i0)
            (\<lambda>j. Inr (py_last start (map (\<lambda>row. row ! j) (every_nth sr inp)))))"

definition run_trial ::
  "('st \<Rightarrow> matrix \<Rightarrow> nat \<Rightarrow> py_error + matrix \<times> 'st) \<Rightarrow> (real \<Rightarrow> matrix \<Rightarrow> matrix) \<Rightarrow> globals
     \<Rightarrow> nat \<Rightarrow> nat \<Rightarrow> 'st \<Rightarrow> int list \<Rightarrow> real \<Rightarrow> nat \<Rightarrow> 'st network \<Rightarrow> nat
     \<Rightarrow> py_error + matrix \<times> vec \<times> 'st network" where
  "run_trial sim gaussian_filter1d g cycle_steps sr y0 inp_indices sigma start net stim =
     bind_err (stimulus g stim cycle_steps inp_indices) (\<lambda>inp0.
     (let inp = gaussian_filter1d sigma inp0 in
      bind_err (net_run sim (net_reset net y0) inp sr) (\<lambda>(obs, net1).
      (let res = py_last start obs in
       bind_err (input_trace g inp sr inp_indices start) (\<lambda>tr.
         Inr (transpose_m (gaussian_filter1d sigma res), tr, net1))))))"

fun trials ::
  "('n \<Rightarrow> nat \<Rightarrow> py_error + matrix \<times> vec \<times> 'n) \<Rightarrow> nat list \<Rightarrow> 'n
     \<Rightarrow> py_error + matrix list \<times> vec list \<times> 'n" where
  "trials f [] net = Inr ([], [], net)"
| "trials f (stim # rest) net =
     bind_err (f net stim) (\<lambda>(sig, tr, net1).
     bind_err (trials f rest net1) (\<lambda>(signals, inputs, net2).
       Inr (sig # signals, tr # inputs, net2)))"

definition get_signals ::
  "('st \<Rightarrow> matrix \<Rightarrow> nat \<Rightarrow> py_error + matrix \<times> 'st) \<Rightarrow> (real \<Rightarrow> matrix \<Rightarrow> matrix) \<Rightarrow> globals
     \<Rightarrow> nat list \<Rightarrow> nat \<Rightarrow> nat \<Rightarrow> 'st network \<Rightarrow> 'st \<Rightarrow> int list \<Rightarrow> real
     \<Rightarrow> py_error + matrix list \<times> vec list \<times> 'st network" where
  "get_signals sim gaussian_filter1d g stim_onsets cycle_steps sr net y0 inp_indices sigma =
     (if sr = 0 then Inl ZeroDivisionError
      else trials (run_trial sim gaussian_filter1d g cycle_steps sr y0 inp_indices sigma
                     (steps_of cycle_steps sr)) stim_onsets net)"

text \<open>
  Stand-ins for the two external functions, to run \<open>get_signals\<close> on concrete inputs:
  a simulator whose recorded output is its input at every \<open>sr\<close>-th step, and a filter
  that changes nothing.
\<close>

definition echo_sim :: "unit \<Rightarrow> matrix \<Rightarrow> nat \<Rightarrow> py_error + matrix \<times> unit" where
  "echo_sim st inp sr = Inr (every_nth sr inp, st)"

definition no_filter :: "real \<Rightarrow> matrix \<Rightarrow> matrix" where
  "no_filter sigma M = M"

text \<open>
  A simulator of a total length: it refuses an input of more than \<open>max_len\<close> rows
  with an error of its own and is the simulator above otherwise.
\<close>

definition bounded_sim :: "nat \<Rightarrow> unit \<Rightarrow> matrix \<Rightarrow> nat \<Rightarrow> py_error + matrix \<times> unit" where
  "bounded_sim max_len st inp sr =
     (if max_len < length inp then Inl SimulatorError else echo_sim st inp sr)"

section \<open>The regularised mean covariance and its condition number\<close>

text \<open>
  The matrix that line 212 inverts: \<open>np.mean(cs, axis=0)\<close>, where \<open>cs\<close> holds
  \<open>get_c(s, alpha=gamma)\<close> for every training signal \<open>s\<close>. It is the mean of the
  \<open>S_i S_i\<^sup>T\<close> plus \<open>gamma\<close> times the identity.
\<close>

definition mean_cov :: "matrix list \<Rightarrow> real \<Rightarrow> py_error + matrix" where
  "mean_cov train_signals gamma =
     bind_err (map_err (\<lambda>s. get_c s gamma) train_signals) mean_axis0"

text \<open>
  The script does not compute a condition number. For a symmetric positive definite
  matrix the spectral condition number is the ratio of its largest to its smallest
  eigenvalue, which are the supremum and the infimum of the Rayleigh quotient
  \<open>x\<^sup>T A x / x\<^sup>T x\<close> over the vectors \<open>x \<noteq> 0\<close>; this is the definition used here.
\<close>

definition quad_form :: "matrix \<Rightarrow> vec \<Rightarrow> real" where
  "quad_form A x = dot x (map (\<lambda>row. dot row x) A)"

definition rayleigh_set :: "matrix \<Rightarrow> real set" where
  "rayleigh_set A = (\<lambda>x. quad_form A x / dot x x) ` {x. length x = length A \<and> dot x x \<noteq> 0}"

definition cond_number :: "matrix \<Rightarrow> real" where
  "cond_number A = Sup (rayleigh_set A) / Inf (rayleigh_set A)"

text \<open>
  Auxiliary notions for the proofs: the entries of \<open>get_c\<close>, the entries of the mean of
  the \<open>S_i S_i\<^sup>T\<close>, its quadratic form, and the Rayleigh quotients of that form.
\<close>

definition cmat :: "matrix \<Rightarrow> real \<Rightarrow> matrix" where
  "cmat X a = map (\<lambda>i. map (\<lambda>j. dot (X ! i) (X ! j) + a * (if i = j then 1 else 0))
                        [0..<length X]) [0..<length X]"

definition cbar :: "matrix list \<Rightarrow> nat \<Rightarrow> nat \<Rightarrow> real" where
  "cbar Ss i j = (\<Sum>s\<leftarrow>Ss. dot (s ! i) (s ! j)) / real (length Ss)"

definition Q0 :: "matrix list \<Rightarrow> nat \<Rightarrow> vec \<Rightarrow> real" where
  "Q0 Ss r x = (\<Sum>i<r. \<Sum>j<r. x ! i * cbar Ss i j * x ! j)"

definition R0 :: "matrix list \<Rightarrow> nat \<Rightarrow> real set" where
  "R0 Ss r = (\<lambda>x. Q0 Ss r x / dot x x) ` {x. length x = r \<and> dot x x \<noteq> 0}"

section \<open>Properties of mse\<close>

lemma max_list_scale:
  "xs \<noteq> [] \<Longrightarrow> 0 < c \<Longrightarrow> max_list (map ((*) c) xs) = c * max_list xs"
proof (induction xs rule: max_list.induct)
  case 1
  then show ?case by simp
next
  case (2 a)
  then show ?case by simp
next
  case (3 a b bs)
  then show ?case by (simp add: max_mult_distrib_left)
qed

lemma max_list_Max: "xs \<noteq> [] \<Longrightarrow> max_list xs = Max (set xs)"
  by (induction xs rule: max_list.induct) simp_all

lemma flatten_amap: "flatten (amap f x) = map f (flatten x)"
  by (cases x) (simp_all add: map_concat)

lemma squeeze_amap: "squeeze (amap f x) = amap f (squeeze x)"
proof (cases x)
  case (Arr0 a)
  then show ?thesis by simp
next
  case (Arr1 v)
  then show ?thesis by (cases v) simp_all
next
  case (Arr2 M)
  show ?thesis
  proof (cases M)
    case Nil
    with Arr2 show ?thesis by (simp add: ncols_def)
  next
    case (Cons r rs)
    with Arr2 show ?thesis
      by (cases r) (auto simp: ncols_def map_concat)
  qed
qed

lemma amap_amap: "amap f (amap g x) = amap (f \<circ> g) x"
  by (cases x) simp_all

lemma np_max_scale:
  "0 < c \<Longrightarrow> np_max (flatten (amap ((*) c) x)) = map_sum id ((*) c) (np_max (flatten x))"
  by (simp add: np_max_def flatten_amap max_list_scale)

lemma normalise_scale:
  assumes "c \<noteq> 0"
  shows "amap (\<lambda>a. a / (c * m)) (squeeze (amap ((*) c) x)) = amap (\<lambda>a. a / m) (squeeze x)"
proof -
  have "(\<lambda>a. a / (c * m)) \<circ> ((*) c) = (\<lambda>a. a / m)"
    using assms by (auto simp: fun_eq_iff)
  then show ?thesis by (simp add: squeeze_amap amap_amap)
qed

lemma mse_scale_array:
  assumes "0 < c"
    and "np_max (flatten x) = Inr mx" and "mx \<noteq> 0"
    and "np_max (flatten y) = Inr my" and "my \<noteq> 0"
  shows "mse (amap ((*) c) x) y = mse x y" and "mse x (amap ((*) c) y) = mse x y"
proof -
  have cx: "np_max (flatten (amap ((*) c) x)) = Inr (c * mx)"
    using assms by (simp add: np_max_scale)
  have cy: "np_max (flatten (amap ((*) c) y)) = Inr (c * my)"
    using assms by (simp add: np_max_scale)
  have c0: "c \<noteq> 0" using assms by simp
  show "mse (amap ((*) c) x) y = mse x y"
    using assms c0 by (simp add: mse_def cx normalise_scale split: sum.splits)
  show "mse x (amap ((*) c) y) = mse x y"
    using assms c0 by (simp add: mse_def cy normalise_scale split: sum.splits)
qed

lemma mse_zero_max:
  "np_max (flatten x) = Inr 0 \<or> np_max (flatten y) = Inr 0 \<Longrightarrow> mse x y \<noteq> Inr (Fin v)"
  by (auto simp: mse_def split: sum.splits)

text \<open>
  C6. For vectors \<open>x\<close> and \<open>y\<close> (with at least one entry) whose maxima are not zero
  and every constant \<open>c > 0\<close>, scaling either argument by \<open>c\<close> leaves the metric
  unchanged: \<open>mse (c * x) y = mse x y\<close> and \<open>mse x (c * y) = mse x y\<close>. The claim sets a
  maximum of zero aside, and so does the statement.
\<close>

theorem mse_scale_invariant:
  assumes "0 < c"
    and "x \<noteq> []" and "max_list x \<noteq> 0"
    and "y \<noteq> []" and "max_list y \<noteq> 0"
  shows "mse (Arr1 (map ((*) c) x)) (Arr1 y) = mse (Arr1 x) (Arr1 y)
       \<and> mse (Arr1 x) (Arr1 (map ((*) c) y)) = mse (Arr1 x) (Arr1 y)"
  using mse_scale_array [of c "Arr1 x" "max_list x" "Arr1 y" "max_list y"] assms
  by (simp add: np_max_def)

theorem mse_scale_invariant_witness:
  "mse (Arr1 (map ((*) 3) [1, 2])) (Arr1 [1, 3]) = mse (Arr1 [1, 2]) (Arr1 [1, 3])
   \<and> mse (Arr1 [1, 2]) (Arr1 (map ((*) 3) [1, 3])) = mse (Arr1 [1, 2]) (Arr1 [1, 3])
   \<and> mse (Arr1 [1, 2]) (Arr1 [1, 3]) = Inr (Fin (1 / 72))"
proof -
  have v: "mse (Arr1 [1, 2]) (Arr1 [1, 3]) = Inr (Fin (1 / 72))"
    by (simp add: mse_def np_max_def sub_row_def mean_list_def power2_eq_square)
  have "(0::real) < 3" and "[1, 2] \<noteq> ([]::real list)" and "max_list [1, 2] \<noteq> 0"
    and "[1, 3] \<noteq> ([]::real list)" and "max_list [1, 3] \<noteq> 0"
    by simp_all
  from mse_scale_invariant [OF this] v show ?thesis by blast
qed

section \<open>Properties of the network kernel\<close>

lemma is_mat_nth: "is_mat r c M \<Longrightarrow> i < r \<Longrightarrow> length (M ! i) = c"
  by (auto simp: is_mat_def list_all_length)

lemma is_mat_length: "is_mat r c M \<Longrightarrow> length M = r"
  by (simp add: is_mat_def)

lemma is_matI: "length M = r \<Longrightarrow> (\<And>i. i < r \<Longrightarrow> length (M ! i) = c) \<Longrightarrow> is_mat r c M"
  by (auto simp: is_mat_def list_all_length)

lemma is_mat_ncols: "is_mat r c M \<Longrightarrow> 0 < r \<Longrightarrow> ncols M = c"
  by (cases M) (auto simp: is_mat_def ncols_def)

lemma is_mat_self: "is_mat r c M \<Longrightarrow> is_mat (length M) (ncols M) M"
  by (cases M) (auto simp: is_mat_def ncols_def)

lemma mat_eqI:
  assumes "is_mat r c A" and "is_mat r c B"
    and "\<And>i j. i < r \<Longrightarrow> j < c \<Longrightarrow> A ! i ! j = B ! i ! j"
  shows "A = B"
proof (rule nth_equalityI)
  show "length A = length B" using assms by (simp add: is_mat_def)
next
  fix i assume "i < length A"
  then have i: "i < r" using assms by (simp add: is_mat_def)
  show "A ! i = B ! i"
  proof (rule nth_equalityI)
    show "length (A ! i) = length (B ! i)"
      using assms(1,2) i by (simp add: is_mat_nth)
  next
    fix j assume "j < length (A ! i)"
    then have "j < c" using assms(1) i by (simp add: is_mat_nth)
    then show "A ! i ! j = B ! i ! j" using assms(3) i by simp
  qed
qed

lemma is_mat_zeros: "is_mat r c (zeros r c)"
  by (simp add: is_mat_def zeros_def list_all_length)

lemma zeros_nth: "i < r \<Longrightarrow> j < c \<Longrightarrow> zeros r c ! i ! j = 0"
  by (simp add: zeros_def)

lemma is_mat_mat_add: "is_mat r c A \<Longrightarrow> is_mat r c B \<Longrightarrow> is_mat r c (mat_add A B)"
  by (auto simp: is_mat_def mat_add_def list_all_length)

lemma mat_add_nth:
  "is_mat r c A \<Longrightarrow> is_mat r c B \<Longrightarrow> i < r \<Longrightarrow> j < c \<Longrightarrow>
   mat_add A B ! i ! j = A ! i ! j + B ! i ! j"
  by (auto simp: is_mat_def mat_add_def list_all_length)

lemma is_mat_mat_sub: "is_mat r c A \<Longrightarrow> is_mat r c B \<Longrightarrow> is_mat r c (mat_sub A B)"
  by (auto simp: is_mat_def mat_sub_def list_all_length)

lemma mat_sub_nth:
  "is_mat r c A \<Longrightarrow> is_mat r c B \<Longrightarrow> i < r \<Longrightarrow> j < c \<Longrightarrow>
   mat_sub A B ! i ! j = A ! i ! j - B ! i ! j"
  by (auto simp: is_mat_def mat_sub_def list_all_length)

lemma is_mat_mat_sum:
  "Ms \<noteq> [] \<Longrightarrow> list_all (is_mat r c) Ms \<Longrightarrow> is_mat r c (mat_sum Ms)"
  by (induction Ms rule: mat_sum.induct) (simp_all add: is_mat_mat_add)

lemma mat_sum_nth:
  "Ms \<noteq> [] \<Longrightarrow> list_all (is_mat r c) Ms \<Longrightarrow> i < r \<Longrightarrow> j < c \<Longrightarrow>
   mat_sum Ms ! i ! j = (\<Sum>M\<leftarrow>Ms. M ! i ! j)"
proof (induction Ms rule: mat_sum.induct)
  case 1
  then show ?case by simp
next
  case (2 M)
  then show ?case by simp
next
  case (3 M N Ms)
  then have "is_mat r c (mat_sum (N # Ms))" by (simp add: is_mat_mat_sum)
  with 3 show ?case by (simp add: mat_add_nth [where r = r and c = c])
qed

lemma mean_axis0_eq:
  assumes "Ms \<noteq> []" and "list_all (is_mat r c) Ms"
  shows "mean_axis0 Ms = Inr (map (map (\<lambda>v. v / real (length Ms))) (mat_sum Ms))"
proof -
  obtain M Ms' where Ms: "Ms = M # Ms'" using assms(1) by (cases Ms) auto
  have M: "is_mat r c M" using assms(2) Ms by simp
  have "list_all (is_mat (length M) (ncols M)) Ms"
  proof (cases "r = 0")
    case True
    then show ?thesis using assms(2) M by (auto simp: list_all_iff is_mat_def)
  next
    case False
    then have "ncols M = c" "length M = r" using M by (simp_all add: is_mat_ncols is_mat_length)
    then show ?thesis using assms(2) by simp
  qed
  then show ?thesis by (simp add: mean_axis0_def Ms)
qed

lemma is_mat_map_map: "is_mat r c M \<Longrightarrow> is_mat r c (map (map f) M)"
  by (auto simp: is_mat_def list_all_length)

lemma mean_axis0_props:
  assumes "Ms \<noteq> []" and "list_all (is_mat r c) Ms" and "mean_axis0 Ms = Inr A"
  shows "is_mat r c A"
    and "i < r \<Longrightarrow> j < c \<Longrightarrow> A ! i ! j = (\<Sum>M\<leftarrow>Ms. M ! i ! j) / real (length Ms)"
proof -
  have A: "A = map (map (\<lambda>v. v / real (length Ms))) (mat_sum Ms)"
    using mean_axis0_eq [OF assms(1,2)] assms(3) by simp
  have S: "is_mat r c (mat_sum Ms)" using assms by (simp add: is_mat_mat_sum)
  show "is_mat r c A" unfolding A using S by (rule is_mat_map_map)
  show "A ! i ! j = (\<Sum>M\<leftarrow>Ms. M ! i ! j) / real (length Ms)" if "i < r" "j < c"
    using that S assms(1,2) by (simp add: A is_mat_length is_mat_nth mat_sum_nth)
qed

lemma s_var_zero:
  assumes "Ms \<noteq> []" and "list_all (is_mat r c) Ms"
  shows "bind_err (mean_axis0 Ms) (s_var_of Ms) = Inr (zeros r c)"
proof -
  obtain m where m: "mean_axis0 Ms = Inr m" using mean_axis0_eq [OF assms] by simp
  note mp = mean_axis0_props [OF assms m]
  let ?Ds = "map (\<lambda>s_i. mat_sub s_i m) Ms"
  have Ds: "?Ds \<noteq> []" "list_all (is_mat r c) ?Ds"
    using assms mp(1) by (auto simp: list_all_iff is_mat_mat_sub)
  obtain v where v: "mean_axis0 ?Ds = Inr v" using mean_axis0_eq [OF Ds] by simp
  note vp = mean_axis0_props [OF Ds v]
  have "v = zeros r c"
  proof (rule mat_eqI [OF vp(1) is_mat_zeros])
    fix i j assume ij: "i < r" "j < c"
    have n: "real (length Ms) \<noteq> 0" using assms(1) by simp
    have "(\<Sum>M\<leftarrow>?Ds. M ! i ! j) = (\<Sum>M\<leftarrow>Ms. M ! i ! j - m ! i ! j)"
      using assms(2) mp(1) ij
      by (auto simp: comp_def list_all_iff mat_sub_nth [where r = r and c = c] intro!: arg_cong [where f = sum_list])
    also have "\<dots> = (\<Sum>M\<leftarrow>Ms. M ! i ! j) - real (length Ms) * (m ! i ! j)"
      by (simp add: sum_list_subtractf sum_list_triv)
    also have "\<dots> = 0" using mp(2) [OF ij] n by simp
    finally show "v ! i ! j = zeros r c ! i ! j"
      using vp(2) [OF ij] ij by (simp add: zeros_nth)
  qed
  then show ?thesis using m v by (simp add: bind_err_def s_var_of_def)
qed

lemma bind_err_Inr: "bind_err m f = Inr y \<longleftrightarrow> (\<exists>v. m = Inr v \<and> f v = Inr y)"
  by (cases m) (simp_all add: bind_err_def)

lemma bind_err_simps [simp]: "bind_err (Inl e) f = Inl e" "bind_err (Inr v) f = f v"
  by (simp_all add: bind_err_def)

lemma dot_zero_left: "dot (replicate n 0) v = 0"
proof -
  have "map2 (*) (replicate n (0::real)) v = replicate (min n (length v)) 0"
    by (rule nth_equalityI) simp_all
  then show ?thesis by (simp add: dot_def sum_list_replicate)
qed

lemma ncols_replicate: "0 < r \<Longrightarrow> ncols (replicate r x) = length x"
  by (cases r) (simp_all add: ncols_def)

lemma ncols_zeros: "0 < r \<Longrightarrow> ncols (zeros r c) = c"
  by (cases r) (simp_all add: ncols_def zeros_def)

lemma transpose_zeros: "0 < r \<Longrightarrow> transpose_m (zeros r c) = zeros c r"
  by (auto simp: transpose_m_def ncols_replicate zeros_def intro!: nth_equalityI)

lemma matmul_zeros_left:
  assumes "matmul (zeros n k) B = Inr G"
  shows "G = zeros n (ncols B)"
proof -
  have "G = map (\<lambda>row. map (dot row) (transpose_m B)) (zeros n k)"
    using assms by (simp add: matmul_def split: if_splits)
  also have "\<dots> = zeros n (ncols B)"
    by (auto simp: zeros_def dot_zero_left transpose_m_def intro!: nth_equalityI)
  finally show ?thesis .
qed

lemma matmul_length_right:
  assumes "matmul A B = Inr C" and "A \<noteq> []"
  shows "length (hd A) = length B"
  using assms by (cases A) (simp_all add: matmul_def split: if_splits)

lemma matmul_shape:
  assumes "matmul A B = Inr C"
  shows "is_mat (length A) (ncols B) C"
  using assms by (auto simp: matmul_def is_mat_def transpose_m_def list_all_length split: if_splits)

lemma mat_vec_zeros: "length v = c \<Longrightarrow> mat_vec (zeros n c) v = Inr (replicate n 0)"
  by (auto simp: mat_vec_def zeros_def dot_zero_left list_all_length intro!: nth_equalityI)

lemma kernel_example: "kernel inv_small [[[1], [2]], [[3], [0]]] 1 =
     Inr \<lparr>kr_s_mean = [[2], [1]], kr_s_var = [[0], [0]],
          kr_C_inv = [[3 / 17, - 1 / 17], [- 1 / 17, 6 / 17]],
          kr_w = [[5 / 17], [4 / 17]], kr_K = [[14 / 17]], kr_G = [[0]]\<rparr>"
  by (simp add: kernel_def get_c_def matmul_def transpose_m_def ncols_def dot_def mat_add_def
      mat_scale_def eye_def mean_axis0_def is_mat_def s_var_of_def mat_sub_def upt_rec)

text \<open>
  C2. For a non-empty list of training signal matrices of one shape (at least one row
  and one column), \<open>s_var\<close>, the mean over the trials of \<open>S_i - s_mean\<close>, is the zero
  matrix. So whenever the kernel is computed, the variance kernel \<open>G = s_var.T @ w\<close> is
  the zero matrix, and \<open>G @ target\<close> is the zero vector for every target.
\<close>

theorem s_var_G_zero:
  assumes "train_signals \<noteq> []" and "list_all (is_mat r c) train_signals"
    and "0 < r" and "0 < c"
  shows "bind_err (mean_axis0 train_signals) (s_var_of train_signals) = Inr (zeros r c)
       \<and> (\<forall>kr. kernel np_inv train_signals gamma = Inr kr \<longrightarrow>
             kr_s_var kr = zeros r c \<and> kr_G kr = zeros c c
             \<and> (\<forall>target. length target = c \<longrightarrow>
                   mat_vec (kr_G kr) target = Inr (replicate c 0)))"
proof (intro conjI allI impI)
  show sv: "bind_err (mean_axis0 train_signals) (s_var_of train_signals) = Inr (zeros r c)"
    using assms(1,2) by (rule s_var_zero)
  fix kr assume "kernel np_inv train_signals gamma = Inr kr"
  then obtain s_mean s_var C_inv w K G where
    m: "mean_axis0 train_signals = Inr s_mean"
    and v: "s_var_of train_signals s_mean = Inr s_var"
    and w: "matmul C_inv s_mean = Inr w"
    and G: "matmul (transpose_m s_var) w = Inr G"
    and kr: "kr = \<lparr>kr_s_mean = s_mean, kr_s_var = s_var, kr_C_inv = C_inv,
                  kr_w = w, kr_K = K, kr_G = G\<rparr>"
    using assms(1) by (auto simp: kernel_def bind_err_Inr)
  have s_var: "s_var = zeros r c" using sv m v by simp
  then show "kr_s_var kr = zeros r c" by (simp add: kr)
  have G': "matmul (zeros c r) w = Inr G"
    using G assms(3) by (simp add: s_var transpose_zeros)
  have "length (hd (zeros c r)) = length w"
    using G' assms(4) by (intro matmul_length_right) (auto simp: zeros_def)
  then have lw: "length w = r" using assms(4) by (cases c) (simp_all add: zeros_def)
  have "is_mat (length C_inv) (ncols s_mean) w" using w by (rule matmul_shape)
  moreover have "ncols s_mean = c"
    using mean_axis0_props(1) [OF assms(1,2) m] assms(3) by (rule is_mat_ncols)
  ultimately have "is_mat r c w" using lw by (simp add: is_mat_def)
  then have "ncols w = c" using assms(3) by (rule is_mat_ncols)
  with matmul_zeros_left [OF G'] have "G = zeros c c" by simp
  then show g: "kr_G kr = zeros c c" by (simp add: kr)
  fix target :: vec assume "length target = c"
  then show "mat_vec (kr_G kr) target = Inr (replicate c 0)"
    by (simp add: g mat_vec_zeros)
qed

theorem s_var_G_zero_witness:
  "bind_err (mean_axis0 [[[1], [2]], [[3], [0]]]) (s_var_of [[[1], [2]], [[3], [0]]])
     = Inr (zeros 2 1)
   \<and> kernel inv_small [[[1], [2]], [[3], [0]]] 1 =
     Inr \<lparr>kr_s_mean = [[2], [1]], kr_s_var = [[0], [0]],
          kr_C_inv = [[3 / 17, - 1 / 17], [- 1 / 17, 6 / 17]],
          kr_w = [[5 / 17], [4 / 17]], kr_K = [[14 / 17]], kr_G = [[0]]\<rparr>
   \<and> kr_G \<lparr>kr_s_mean = [[2], [1]], kr_s_var = [[0], [0]],
          kr_C_inv = [[3 / 17, - 1 / 17], [- 1 / 17, 6 / 17]],
          kr_w = [[5 / 17], [4 / 17]], kr_K = [[14 / 17]], kr_G = [[0]]\<rparr> = zeros 1 1
   \<and> mat_vec (kr_G \<lparr>kr_s_mean = [[2], [1]], kr_s_var = [[0], [0]],
          kr_C_inv = [[3 / 17, - 1 / 17], [- 1 / 17, 6 / 17]],
          kr_w = [[5 / 17], [4 / 17]], kr_K = [[14 / 17]], kr_G = [[0]]\<rparr>) [7] = Inr (replicate 1 0)"
proof -
  have sh: "[[[1], [2]], [[3], [0]]] \<noteq> ([] :: matrix list)"
    "list_all (is_mat 2 1) [[[1], [2]], [[3], [0]]]" "0 < (2::nat)" "0 < (1::nat)"
    by (simp_all add: is_mat_def)
  note t = s_var_G_zero [OF sh, of inv_small 1]
  let ?kr = "\<lparr>kr_s_mean = [[2], [1]], kr_s_var = [[0], [0]],
          kr_C_inv = [[3 / 17, - 1 / 17], [- 1 / 17, 6 / 17]],
          kr_w = [[5 / 17], [4 / 17]], kr_K = [[14 / 17]], kr_G = [[0]]\<rparr>"
  from t have a: "bind_err (mean_axis0 [[[1], [2]], [[3], [0]]])
      (s_var_of [[[1], [2]], [[3], [0]]]) = Inr (zeros 2 1)"
    by blast
  from t kernel_example have b: "kr_G ?kr = zeros 1 1"
    by blast
  have l: "length [7::real] = 1" by simp
  from t kernel_example l have c: "mat_vec (kr_G ?kr) [7] = Inr (replicate 1 0)"
    by blast
  from a b c kernel_example show ?thesis by blast
qed

section \<open>Properties of the analysis\<close>

lemma select_valid:
  "\<forall>i\<in>set idxs. i < length xs \<Longrightarrow> select xs idxs = Inr (map ((!) xs) idxs)"
  unfolding select_def by (induction idxs) simp_all

lemma analysis_kernel:
  assumes "\<forall>i\<in>set train_trials. i < length signals"
    and "\<forall>i\<in>set test_trials. i < length signals"
  shows "map_sum id fst (analysis np_inv signals train_trials test_trials targets gamma)
       = kernel np_inv (map ((!) signals) train_trials) gamma"
proof (cases "kernel np_inv (map ((!) signals) train_trials) gamma")
  case (Inl e)
  then show ?thesis using assms by (simp add: analysis_def select_valid)
next
  case (Inr kr)
  then show ?thesis using assms by (simp add: analysis_def select_valid)
qed

lemma analysis_run_a: "analysis inv_small [[[1, 2], [4, 0]], [[1, 0], [0, 1]]] [1] [0] [[1, 2]] 1 =
  Inr (\<lparr>kr_s_mean = [[1, 0], [0, 1]], kr_s_var = [[0, 0], [0, 0]],
        kr_C_inv = [[1 / 2, 0], [0, 1 / 2]], kr_w = [[1 / 2, 0], [0, 1 / 2]],
        kr_K = [[1 / 2, 0], [0, 1 / 2]], kr_G = [[0, 0], [0, 0]]\<rparr>,
       Inr [\<lparr>train_prediction = [1 / 2, 1], train_distortion = [0, 0], readout = [1 / 2, 1],
         test_prediction = [[9 / 2, 1]], mses = [Fin (25 / 64)]\<rparr>])"
  by (simp add: analysis_def select_def kernel_def get_c_def matmul_def transpose_m_def ncols_def
      dot_def mat_add_def mat_scale_def eye_def mean_axis0_def is_mat_def s_var_of_def mat_sub_def
      upt_rec eval_target_def mat_vec_def vec_mat_def mse_def np_max_def sub_row_def mean_list_def
      power2_eq_square)

lemma analysis_run_b:
  "analysis inv_small [[[0, - 2], [- 4, 0]], [[1, 0], [0, 1]]] [1] [0] [[3, 1]] 1 =
  Inr (\<lparr>kr_s_mean = [[1, 0], [0, 1]], kr_s_var = [[0, 0], [0, 0]],
        kr_C_inv = [[1 / 2, 0], [0, 1 / 2]], kr_w = [[1 / 2, 0], [0, 1 / 2]],
        kr_K = [[1 / 2, 0], [0, 1 / 2]], kr_G = [[0, 0], [0, 0]]\<rparr>,
       Inr [\<lparr>train_prediction = [3 / 2, 1 / 2], train_distortion = [0, 0], readout = [3 / 2, 1 / 2],
         test_prediction = [[- 2, - 3]], mses = [NonFin]\<rparr>])"
  by (simp add: analysis_def select_def kernel_def get_c_def matmul_def transpose_m_def ncols_def
      dot_def mat_add_def mat_scale_def eye_def mean_axis0_def is_mat_def s_var_of_def mat_sub_def
      upt_rec eval_target_def mat_vec_def vec_mat_def mse_def np_max_def sub_row_def mean_list_def
      power2_eq_square)

lemma analysis_run_c:
  "analysis inv_small [[[0, - 2], [- 4, 0]], [[1, 0], [0, 1]]] [1] [0] [[1, 2, 3]] 1 =
  Inr (\<lparr>kr_s_mean = [[1, 0], [0, 1]], kr_s_var = [[0, 0], [0, 0]],
        kr_C_inv = [[1 / 2, 0], [0, 1 / 2]], kr_w = [[1 / 2, 0], [0, 1 / 2]],
        kr_K = [[1 / 2, 0], [0, 1 / 2]], kr_G = [[0, 0], [0, 0]]\<rparr>,
       Inl shape_error)"
  by (simp add: analysis_def select_def kernel_def get_c_def matmul_def transpose_m_def ncols_def
      dot_def mat_add_def mat_scale_def eye_def mean_axis0_def is_mat_def s_var_of_def mat_sub_def
      upt_rec eval_target_def mat_vec_def vec_mat_def mse_def np_max_def sub_row_def mean_list_def
      power2_eq_square)

text \<open>
  C3. Two runs of the analysis that agree on the training trial signals and on the
  regularisation constant, and differ arbitrarily in the other signals, in the test
  trials and in the targets, compute the same \<open>K\<close>, \<open>G\<close> and \<open>w\<close>, or fail with the
  same error before these are computed: the kernel part of a run is the kernel of its
  training signals and of \<open>gamma\<close>. The trial indices are taken to be in range in both
  runs; what the loop over the targets does (a result, a \<open>nan\<close> among the errors, an
  exception) has no influence.
\<close>

theorem kernel_training_only:
  assumes "\<forall>i\<in>set train_trials.
             i < length signals \<and> i < length signals' \<and> signals ! i = signals' ! i"
    and "\<forall>i\<in>set test_trials. i < length signals"
    and "\<forall>i\<in>set test_trials'. i < length signals'"
  shows "map_sum id fst (analysis np_inv signals train_trials test_trials targets gamma)
           = map_sum id fst (analysis np_inv signals' train_trials test_trials' targets' gamma)
       \<and> map_sum id fst (analysis np_inv signals train_trials test_trials targets gamma)
           = kernel np_inv (map ((!) signals) train_trials) gamma
       \<and> (\<forall>kr out kr' out'.
             analysis np_inv signals train_trials test_trials targets gamma = Inr (kr, out)
             \<and> analysis np_inv signals' train_trials test_trials' targets' gamma = Inr (kr', out')
             \<longrightarrow> kr_K kr' = kr_K kr \<and> kr_G kr' = kr_G kr \<and> kr_w kr' = kr_w kr)"
proof -
  have tr: "map ((!) signals) train_trials = map ((!) signals') train_trials"
    using assms(1) by simp
  have a: "map_sum id fst (analysis np_inv signals train_trials test_trials targets gamma)
       = kernel np_inv (map ((!) signals) train_trials) gamma"
    using assms(1,2) by (intro analysis_kernel) simp_all
  have b: "map_sum id fst (analysis np_inv signals' train_trials test_trials' targets' gamma)
       = kernel np_inv (map ((!) signals') train_trials) gamma"
    using assms(1,3) by (intro analysis_kernel) simp_all
  have c: "map_sum id fst (analysis np_inv signals train_trials test_trials targets gamma)
       = map_sum id fst (analysis np_inv signals' train_trials test_trials' targets' gamma)"
    using a b tr by simp
  have "kr' = kr"
    if "analysis np_inv signals train_trials test_trials targets gamma = Inr (kr, out)"
      and "analysis np_inv signals' train_trials test_trials' targets' gamma = Inr (kr', out')"
    for kr out kr' out'
    using c that by simp
  with a c show ?thesis by blast
qed

theorem kernel_training_only_witness:
  "analysis inv_small [[[1, 2], [4, 0]], [[1, 0], [0, 1]]] [1] [0] [[1, 2]] 1 =
     Inr (\<lparr>kr_s_mean = [[1, 0], [0, 1]], kr_s_var = [[0, 0], [0, 0]],
        kr_C_inv = [[1 / 2, 0], [0, 1 / 2]], kr_w = [[1 / 2, 0], [0, 1 / 2]],
        kr_K = [[1 / 2, 0], [0, 1 / 2]], kr_G = [[0, 0], [0, 0]]\<rparr>,
       Inr [\<lparr>train_prediction = [1 / 2, 1], train_distortion = [0, 0], readout = [1 / 2, 1],
         test_prediction = [[9 / 2, 1]], mses = [Fin (25 / 64)]\<rparr>])
   \<and> analysis inv_small [[[0, - 2], [- 4, 0]], [[1, 0], [0, 1]]] [1] [0] [[3, 1]] 1 =
     Inr (\<lparr>kr_s_mean = [[1, 0], [0, 1]], kr_s_var = [[0, 0], [0, 0]],
        kr_C_inv = [[1 / 2, 0], [0, 1 / 2]], kr_w = [[1 / 2, 0], [0, 1 / 2]],
        kr_K = [[1 / 2, 0], [0, 1 / 2]], kr_G = [[0, 0], [0, 0]]\<rparr>,
       Inr [\<lparr>train_prediction = [3 / 2, 1 / 2], train_distortion = [0, 0], readout = [3 / 2, 1 / 2],
         test_prediction = [[- 2, - 3]], mses = [NonFin]\<rparr>])
   \<and> kernel inv_small (map ((!) [[[1, 2], [4, 0]], [[1, 0], [0, 1]]]) [1]) 1 =
     Inr \<lparr>kr_s_mean = [[1, 0], [0, 1]], kr_s_var = [[0, 0], [0, 0]],
        kr_C_inv = [[1 / 2, 0], [0, 1 / 2]], kr_w = [[1 / 2, 0], [0, 1 / 2]],
        kr_K = [[1 / 2, 0], [0, 1 / 2]], kr_G = [[0, 0], [0, 0]]\<rparr>
   \<and> kr_K \<lparr>kr_s_mean = [[1, 0], [0, 1]], kr_s_var = [[0, 0], [0, 0]],
        kr_C_inv = [[1 / 2, 0], [0, 1 / 2]], kr_w = [[1 / 2, 0], [0, 1 / 2]],
        kr_K = [[1 / 2, 0], [0, 1 / 2]], kr_G = [[0, 0], [0, 0]]\<rparr>
       = kr_K \<lparr>kr_s_mean = [[1, 0], [0, 1]], kr_s_var = [[0, 0], [0, 0]],
        kr_C_inv = [[1 / 2, 0], [0, 1 / 2]], kr_w = [[1 / 2, 0], [0, 1 / 2]],
        kr_K = [[1 / 2, 0], [0, 1 / 2]], kr_G = [[0, 0], [0, 0]]\<rparr>"
proof -
  let ?s = "[[[1, 2], [4, 0]], [[1, 0], [0, 1 :: real]]]"
  let ?s' = "[[[0, - 2], [- 4, 0]], [[1, 0], [0, 1 :: real]]]"
  have h: "\<forall>i\<in>set [1::nat]. i < length ?s \<and> i < length ?s' \<and> ?s ! i = ?s' ! i"
    "\<forall>i\<in>set [0::nat]. i < length ?s" "\<forall>i\<in>set [0::nat]. i < length ?s'"
    by simp_all
  note t = kernel_training_only [OF h, of inv_small "[[1, 2]]" 1 "[[3, 1]]"]
  from t have "map_sum id fst (analysis inv_small ?s [1] [0] [[1, 2]] 1)
           = kernel inv_small (map ((!) ?s) [1]) 1"
    by blast
  then have k: "kernel inv_small (map ((!) ?s) [1]) 1 =
     Inr \<lparr>kr_s_mean = [[1, 0], [0, 1]], kr_s_var = [[0, 0], [0, 0]],
        kr_C_inv = [[1 / 2, 0], [0, 1 / 2]], kr_w = [[1 / 2, 0], [0, 1 / 2]],
        kr_K = [[1 / 2, 0], [0, 1 / 2]], kr_G = [[0, 0], [0, 0]]\<rparr>"
    unfolding analysis_run_a by simp
  from t analysis_run_a analysis_run_b
  have "kr_K \<lparr>kr_s_mean = [[1, 0], [0, 1]], kr_s_var = [[0, 0], [0, 0]],
        kr_C_inv = [[1 / 2, 0], [0, 1 / 2]], kr_w = [[1 / 2, 0], [0, 1 / 2]],
        kr_K = [[1 / 2, 0], [0, 1 / 2]], kr_G = [[0, 0], [0, 0]]\<rparr>
       = kr_K \<lparr>kr_s_mean = [[1, 0], [0, 1]], kr_s_var = [[0, 0], [0, 0]],
        kr_C_inv = [[1 / 2, 0], [0, 1 / 2]], kr_w = [[1 / 2, 0], [0, 1 / 2]],
        kr_K = [[1 / 2, 0], [0, 1 / 2]], kr_G = [[0, 0], [0, 0]]\<rparr>"
    by blast
  with k analysis_run_a analysis_run_b show ?thesis by blast
qed

text \<open>
  C1 (the code differs). The error that the loop records for a target and a test trial is
  \<open>mse(target, test_sig)\<close>, computed on the test signal matrix itself and not on the
  reconstructed trace \<open>w_readout @ test_sig\<close>. With one training trial \<open>[[1, 0], [0, 1]]\<close>,
  the test trial \<open>[[1, 2], [4, 0]]\<close>, the target \<open>[1, 2]\<close> and \<open>gamma = 1\<close> the
  reconstructed trace is \<open>[9/2, 1]\<close>; its normalised mean squared difference to the
  target is \<open>277/648\<close>, the recorded error is \<open>25/64\<close>.
\<close>

theorem mses_on_raw_test_signal:
  "analysis inv_small [[[1, 2], [4, 0]], [[1, 0], [0, 1]]] [1] [0] [[1, 2]] 1 =
     Inr (\<lparr>kr_s_mean = [[1, 0], [0, 1]], kr_s_var = [[0, 0], [0, 0]],
        kr_C_inv = [[1 / 2, 0], [0, 1 / 2]], kr_w = [[1 / 2, 0], [0, 1 / 2]],
        kr_K = [[1 / 2, 0], [0, 1 / 2]], kr_G = [[0, 0], [0, 0]]\<rparr>,
       Inr [\<lparr>train_prediction = [1 / 2, 1], train_distortion = [0, 0], readout = [1 / 2, 1],
         test_prediction = [[9 / 2, 1]], mses = [Fin (25 / 64)]\<rparr>])
   \<and> vec_mat [1 / 2, 1] [[1, 2], [4, 0]] = Inr [9 / 2, 1]
   \<and> mse (Arr1 [1, 2]) (Arr1 [9 / 2, 1]) = Inr (Fin (277 / 648))
   \<and> mse (Arr1 [1, 2]) (Arr2 [[1, 2], [4, 0]]) = Inr (Fin (25 / 64))"
proof -
  have "vec_mat [1 / 2, 1] [[1, 2], [4, 0]] = Inr [9 / 2, 1]"
    by (simp add: vec_mat_def transpose_m_def ncols_def dot_def upt_rec)
  moreover have "mse (Arr1 [1, 2]) (Arr1 [9 / 2, 1]) = Inr (Fin (277 / 648))"
    by (simp add: mse_def np_max_def sub_row_def mean_list_def power2_eq_square)
  moreover have "mse (Arr1 [1, 2]) (Arr2 [[1, 2], [4, 0]]) = Inr (Fin (25 / 64))"
    by (simp add: mse_def np_max_def ncols_def sub_row_def mean_list_def power2_eq_square)
  ultimately show ?thesis using analysis_run_a by blast
qed

section \<open>Properties of get\_signals\<close>

lemma trials_all:
  assumes "trials f stims net = Inr (sigs, inps, net')"
    and "\<And>n s sig tr n1. s \<in> set stims \<Longrightarrow> f n s = Inr (sig, tr, n1) \<Longrightarrow> P sig"
  shows "length sigs = length stims \<and> list_all P sigs"
  using assms
proof (induction stims arbitrary: net sigs inps net')
  case Nil
  then show ?case by simp
next
  case (Cons s stims)
  from Cons.prems(1) obtain sig tr n1 sigs' inps' where
    f: "f net s = Inr (sig, tr, n1)" and r: "trials f stims n1 = Inr (sigs', inps', net')"
    and e: "sigs = sig # sigs'"
    by (auto simp: bind_err_Inr)
  have "P sig" using f Cons.prems(2) [of s net sig tr n1] by simp
  moreover have "length sigs' = length stims \<and> list_all P sigs'"
  proof (rule Cons.IH [OF r])
    fix n s' sig' tr' n1'
    assume "s' \<in> set stims" and "f n s' = Inr (sig', tr', n1')"
    then show "P sig'" using Cons.prems(2) [of s' n sig' tr' n1'] by simp
  qed
  ultimately show ?case by (simp add: e)
qed

lemma trials_log:
  assumes "trials f stims net = Inr (sigs, inps, net')"
    and "\<And>n s sig tr n1. f n s = Inr (sig, tr, n1) \<Longrightarrow> run_log n1 = run_log n @ [h s]"
  shows "run_log net' = run_log net @ map h stims"
  using assms
proof (induction stims arbitrary: net sigs inps net')
  case Nil
  then show ?case by simp
next
  case (Cons s stims)
  from Cons.prems(1) obtain sig tr n1 sigs' inps' where
    f: "f net s = Inr (sig, tr, n1)" and r: "trials f stims n1 = Inr (sigs', inps', net')"
    by (auto simp: bind_err_Inr)
  have "run_log n1 = run_log net @ [h s]" using f Cons.prems(2) by simp
  moreover have "run_log net' = run_log n1 @ map h stims"
    using r Cons.prems(2) by (intro Cons.IH) auto
  ultimately show ?case by simp
qed

lemma trials_returns:
  assumes "\<And>n s. \<exists>r. f n s = Inr r"
  shows "\<exists>r. trials f stims net = Inr r"
proof (induction stims arbitrary: net)
  case Nil
  then show ?case by simp
next
  case (Cons s stims)
  obtain sig tr n1 where f: "f net s = Inr (sig, tr, n1)"
    using assms [of net s] by (metis prod_cases3)
  obtain sigs inps n2 where "trials f stims n1 = Inr (sigs, inps, n2)"
    using Cons.IH [of n1] by (metis prod_cases3)
  with f show ?case by simp
qed

lemma fold_update_length: "length (fold (\<lambda>j r. r[j := a]) cols row) = length row"
  by (induction cols arbitrary: row) simp_all

lemma fold_update_nth:
  "j < length row \<Longrightarrow>
   fold (\<lambda>j r. r[j := a]) cols row ! j = (if j \<in> set cols then a else row ! j)"
proof (induction cols arbitrary: row)
  case Nil
  then show ?case by simp
next
  case (Cons k cols)
  have "fold (\<lambda>j r. r[j := a]) cols (row[k := a]) ! j
      = (if j \<in> set cols then a else row[k := a] ! j)"
    using Cons.prems by (intro Cons.IH) simp
  then show ?case using Cons.prems by (auto simp: nth_list_update)
qed

lemma pulse_length: "length (pulse n a width stim cycle_steps cols) = stim + cycle_steps"
  by (simp add: pulse_def zeros_def)

lemma pulse_row:
  assumes "t < stim + cycle_steps"
  shows "pulse n a width stim cycle_steps cols ! t =
         (if stim \<le> t \<and> t < stim + width
          then fold (\<lambda>j r. r[j := a]) cols (replicate n 0) else replicate n 0)"
  using assms by (simp add: pulse_def zeros_def nth_enumerate_eq)

lemma is_mat_pulse: "is_mat (stim + cycle_steps) n (pulse n a width stim cycle_steps cols)"
  by (rule is_matI) (simp_all add: pulse_length pulse_row fold_update_length)

lemma pulse_nth:
  assumes "t < stim + cycle_steps" and "j < n"
  shows "pulse n a width stim cycle_steps cols ! t ! j =
         (if stim \<le> t \<and> t < stim + width \<and> j \<in> set cols then a else 0)"
  using assms by (simp add: pulse_row fold_update_nth)

lemma is_mat_py_last:
  assumes "is_mat m c M" and "k \<le> m" and "0 < k"
  shows "is_mat k c (py_last k M)"
  using assms by (auto simp: is_mat_def py_last_def list_all_length)

lemma is_mat_transpose:
  assumes "is_mat r c M" and "0 < r"
  shows "is_mat c r (transpose_m M)"
  using assms by (auto simp: transpose_m_def is_mat_ncols is_mat_def list_all_length)

lemma net_run_Inr:
  "net_run sim net inp sr = Inr (obs, net1) \<longleftrightarrow>
   (\<exists>st. sim (net_state net) inp sr = Inr (obs, st)
      \<and> net1 = net\<lparr>net_state := st, run_log := run_log net @ [inp]\<rparr>)"
  by (auto simp: net_run_def split: sum.splits)

lemma run_trial_Inr:
  assumes "run_trial sim gf g cycle_steps sr y0 inp_indices sigma start net stim = Inr (sig, tr, net1)"
  obtains cols obs st where
    "map_err (norm_index (g_N g)) inp_indices = Inr cols"
    "sim y0 (gf sigma (pulse (g_N g) (g_alpha g) (g_stim_width g) stim cycle_steps cols)) sr
       = Inr (obs, st)"
    "sig = transpose_m (gf sigma (py_last start obs))"
    "run_log net1 = run_log net
       @ [gf sigma (pulse (g_N g) (g_alpha g) (g_stim_width g) stim cycle_steps cols)]"
  using assms
  by (auto simp: run_trial_def stimulus_def bind_err_Inr Let_def net_run_Inr net_reset_def)

lemma map_err_Inr_Cons:
  "map_err f (x # xs) = Inr ys \<Longrightarrow> \<exists>y. f x = Inr y"
  by (auto split: sum.splits)

lemma run_trial_returns:
  assumes "inp_indices \<noteq> []" and "map_err (norm_index (g_N g)) inp_indices = Inr cols"
    and "\<forall>st inp. \<exists>r. sim st inp sr = Inr r"
  shows "\<exists>r. run_trial sim gf g cycle_steps sr y0 inp_indices sigma start net stim = Inr r"
proof -
  obtain i0 rest where ii: "inp_indices = i0 # rest" using assms(1) by (cases inp_indices) auto
  obtain j where j: "norm_index (g_N g) i0 = Inr j"
    using map_err_Inr_Cons [OF assms(2) [unfolded ii]] by blast
  let ?inp = "gf sigma (pulse (g_N g) (g_alpha g) (g_stim_width g) stim cycle_steps cols)"
  obtain obs st where "sim y0 ?inp sr = Inr (obs, st)"
    using assms(3) by (metis surj_pair)
  then show ?thesis
    using assms(2) j
    by (simp add: run_trial_def stimulus_def Let_def net_run_def net_reset_def input_trace_def ii)
qed

lemma run_a:
  "get_signals echo_sim no_filter \<lparr>g_N = 2, g_alpha = 80, g_stim_width = 2\<rparr> [0, 2] 4 2
     \<lparr>net_state = (), run_log = []\<rparr> () [1] 10 =
   Inr ([[[0, 0], [80, 0]], [[0, 0], [80, 0]]], [[80, 0], [80, 0]],
        \<lparr>net_state = (),
           run_log = [[[0, 80], [0, 80], [0, 0], [0, 0]],
                      [[0, 0], [0, 0], [0, 80], [0, 80], [0, 0], [0, 0]]]\<rparr>)"
  by code_simp


lemma run_c:
  "get_signals echo_sim no_filter \<lparr>g_N = 3, g_alpha = 80, g_stim_width = 1\<rparr> [1] 2 1
     \<lparr>net_state = (), run_log = []\<rparr> () [0, - 1] 10 =
   Inr ([[[80, 0], [0, 0], [80, 0]]], [[80, 0]],
        \<lparr>net_state = (), run_log = [[[0, 0, 0], [80, 0, 80], [0, 0, 0]]]\<rparr>)"
  by code_simp

lemma stim_c: "stimulus \<lparr>g_N = 3, g_alpha = 80, g_stim_width = 1\<rparr> 1 2 [0, - 1]
   = Inr [[0, 0, 0], [80, 0, 80], [0, 0, 0]]"
  by code_simp

lemma every_nth_index:
  assumes "i < (m + k - 1) div k" and "0 < k"
  shows "i * k < (m::nat)"
proof -
  have "Suc i \<le> (m + k - 1) div k" using assms(1) by simp
  then have "Suc i * k \<le> m + k - 1"
    using assms(2) by (simp add: less_eq_div_iff_mult_less_eq)
  then show ?thesis using assms(2) by (cases m) auto
qed

lemma is_mat_every_nth:
  assumes "is_mat m c M" and "0 < k"
  shows "is_mat ((m + k - 1) div k) c (every_nth k M)"
proof (rule is_matI)
  show "length (every_nth k M) = (m + k - 1) div k"
    using assms by (simp add: every_nth_def is_mat_length)
next
  fix i assume "i < (m + k - 1) div k"
  then have "i * k < m" using assms(2) by (rule every_nth_index)
  then show "length (every_nth k M ! i) = c"
    using assms \<open>i < (m + k - 1) div k\<close> by (simp add: every_nth_def is_mat_length is_mat_nth)
qed

lemma echo_sim_shape:
  assumes "is_mat (length inp) c inp" and "0 < sr" and "echo_sim st inp sr = Inr (obs, st')"
  shows "is_mat (length obs) c obs" and "length obs = (length inp + sr - 1) div sr"
proof -
  have obs: "obs = every_nth sr inp" using assms(3) by (simp add: echo_sim_def)
  have m: "is_mat ((length inp + sr - 1) div sr) c obs"
    unfolding obs using assms(1,2) by (rule is_mat_every_nth)
  then show "length obs = (length inp + sr - 1) div sr" by (rule is_mat_length)
  with m show "is_mat (length obs) c obs" by simp
qed


lemma run_f:
  "get_signals echo_sim no_filter \<lparr>g_N = 2, g_alpha = 80, g_stim_width = 1\<rparr> [0, 3] 2 1
     \<lparr>net_state = (), run_log = []\<rparr> () [1] 10 =
   Inr ([[[0, 0], [80, 0]], [[0, 0], [80, 0]]], [[80, 0], [80, 0]],
        \<lparr>net_state = (),
           run_log = [[[0, 80], [0, 0]], [[0, 0], [0, 0], [0, 0], [0, 80], [0, 0]]]\<rparr>)"
  by code_simp

lemma run_g:
  "get_signals (bounded_sim 3) no_filter \<lparr>g_N = 2, g_alpha = 80, g_stim_width = 1\<rparr> [0, 2] 2 1
     \<lparr>net_state = (), run_log = []\<rparr> () [1] 10 = Inl SimulatorError"
  by code_simp

lemma steps_examples: "steps_of 4 2 = 2" "steps_of 1 4 = 0" "steps_of 25000 10 = 2500"
  by (simp_all add: steps_of_def round_half_even_def Let_def)

lemma cols_c: "map_err (norm_index 3) [0, - 1] = Inr [0, 2]"
  by (simp add: norm_index_def)

lemma pulse_c: "pulse 3 80 1 1 2 [0, 2] = [[0, 0, 0], [80, 0, 80], [0, 0, 0]]"
  by code_simp

text \<open>
  The number of time columns for \<open>steps \<ge> 1\<close>. When \<open>steps = round(cycle_steps / sr)\<close>
  is at least 1, the filter keeps the shape of its argument, and the simulator returns,
  for every input of at least \<open>cycle_steps\<close> rows, at least \<open>steps\<close> samples of \<open>ch\<close>
  channels, then \<open>get_signals\<close> returns one signal matrix per onset and each has \<open>ch\<close>
  rows and exactly \<open>steps\<close> time columns, whatever the onsets are.
\<close>

lemma get_signals_steps_columns:
  assumes gs: "get_signals sim gf g stim_onsets cycle_steps sr net y0 inp_indices sigma
                 = Inr (signals, inputs, net')"
    and filt: "\<forall>s M r c. is_mat r c M \<longrightarrow> is_mat r c (gf s M)"
    and simh: "\<forall>st inp obs st'.
                 is_mat (length inp) (g_N g) inp \<and> cycle_steps \<le> length inp
                 \<and> sim st inp sr = Inr (obs, st')
                 \<longrightarrow> is_mat (length obs) ch obs \<and> steps_of cycle_steps sr \<le> length obs"
    and pos: "0 < steps_of cycle_steps sr"
  shows "length signals = length stim_onsets
       \<and> list_all (is_mat ch (steps_of cycle_steps sr)) signals"
proof -
  let ?start = "steps_of cycle_steps sr"
  let ?f = "run_trial sim gf g cycle_steps sr y0 inp_indices sigma ?start"
  have tr: "trials ?f stim_onsets net = Inr (signals, inputs, net')"
    using gs by (simp add: get_signals_def split: if_splits)
  show ?thesis
  proof (rule trials_all [OF tr])
    fix n s sig tr n1
    assume "?f n s = Inr (sig, tr, n1)"
    then obtain cols obs st where
      run: "sim y0 (gf sigma (pulse (g_N g) (g_alpha g) (g_stim_width g) s cycle_steps cols)) sr
              = Inr (obs, st)"
      and sig: "sig = transpose_m (gf sigma (py_last ?start obs))"
      by (rule run_trial_Inr)
    let ?inp = "gf sigma (pulse (g_N g) (g_alpha g) (g_stim_width g) s cycle_steps cols)"
    have inp: "is_mat (s + cycle_steps) (g_N g) ?inp"
      using filt is_mat_pulse by blast
    then have "length ?inp = s + cycle_steps" by (rule is_mat_length)
    with inp run simh have obs: "is_mat (length obs) ch obs" "?start \<le> length obs"
      by (metis le_add2)+
    have "is_mat ?start ch (py_last ?start obs)"
      using obs pos by (rule is_mat_py_last)
    then have "is_mat ?start ch (gf sigma (py_last ?start obs))"
      using filt by blast
    then show "is_mat ch ?start sig"
      unfolding sig using pos by (rule is_mat_transpose)
  qed
qed

lemma get_signals_steps_columns_example:
  "get_signals echo_sim no_filter \<lparr>g_N = 2, g_alpha = 80, g_stim_width = 2\<rparr> [0, 2] 4 2
     \<lparr>net_state = (), run_log = []\<rparr> () [1] 10 =
   Inr ([[[0, 0], [80, 0]], [[0, 0], [80, 0]]], [[80, 0], [80, 0]],
        \<lparr>net_state = (),
           run_log = [[[0, 80], [0, 80], [0, 0], [0, 0]],
                      [[0, 0], [0, 0], [0, 80], [0, 80], [0, 0], [0, 0]]]\<rparr>)
   \<and> 0 < steps_of 4 2
   \<and> length [[[0, 0], [80, 0]], [[0, 0], [80, 0 :: real]]] = length [0, 2 :: nat]
   \<and> list_all (is_mat 2 (steps_of 4 2)) [[[0, 0], [80, 0]], [[0, 0], [80, 0]]]"
proof -
  let ?g = "\<lparr>g_N = 2, g_alpha = 80, g_stim_width = 2\<rparr>"
  have filt: "\<forall>s M r c. is_mat r c M \<longrightarrow> is_mat r c (no_filter s M)"
    by (simp add: no_filter_def)
  have simh: "\<forall>st inp obs st'.
      is_mat (length inp) (g_N ?g) inp \<and> 4 \<le> length inp \<and> echo_sim st inp 2 = Inr (obs, st')
      \<longrightarrow> is_mat (length obs) 2 obs \<and> steps_of 4 2 \<le> length obs"
  proof (intro allI impI, elim conjE)
    fix st :: unit and inp obs st'
    assume m: "is_mat (length inp) (g_N ?g) inp" and l: "4 \<le> length inp"
      and e: "echo_sim st inp 2 = Inr (obs, st')"
    have m2: "is_mat (length inp) 2 inp" using m by simp
    have "is_mat (length obs) 2 obs" and "length obs = (length inp + 2 - 1) div 2"
      using echo_sim_shape [OF m2 _ e] by simp_all
    then show "is_mat (length obs) 2 obs \<and> steps_of 4 2 \<le> length obs"
      using l by (simp add: steps_examples)
  qed
  have pos: "0 < steps_of 4 2" by (simp add: steps_examples)
  from get_signals_steps_columns [OF run_a filt simh pos] run_a pos
  show ?thesis by blast
qed


text \<open>
  C5 (amended). For valid channel indices the input of a trial before smoothing is a matrix
  of \<open>onset + cycle_steps\<close> rows and \<open>N\<close> columns, whose entry in row \<open>t\<close> and column
  \<open>j\<close> is \<open>alpha\<close> when \<open>onset \<le> t < onset + stim_width\<close> and \<open>j\<close> is one of the
  channels, and zero otherwise; what the simulator receives for each onset is this
  matrix passed through the filter with the given \<open>sigma\<close>.
\<close>

theorem stimulus_pulse:
  assumes "map_err (norm_index (g_N g)) inp_indices = Inr cols"
  shows "stimulus g stim cycle_steps inp_indices
           = Inr (pulse (g_N g) (g_alpha g) (g_stim_width g) stim cycle_steps cols)
       \<and> is_mat (stim + cycle_steps) (g_N g)
           (pulse (g_N g) (g_alpha g) (g_stim_width g) stim cycle_steps cols)
       \<and> (\<forall>t j. t < stim + cycle_steps \<and> j < g_N g \<longrightarrow>
             pulse (g_N g) (g_alpha g) (g_stim_width g) stim cycle_steps cols ! t ! j
               = (if stim \<le> t \<and> t < stim + g_stim_width g \<and> j \<in> set cols
                  then g_alpha g else 0))
       \<and> (\<forall>signals inputs net'.
             get_signals sim gf g stim_onsets cycle_steps sr net y0 inp_indices sigma
               = Inr (signals, inputs, net')
             \<longrightarrow> run_log net' = run_log net
                   @ map (\<lambda>onset. gf sigma
                            (pulse (g_N g) (g_alpha g) (g_stim_width g) onset cycle_steps cols))
                       stim_onsets)"
proof (intro conjI allI impI)
  show "stimulus g stim cycle_steps inp_indices
           = Inr (pulse (g_N g) (g_alpha g) (g_stim_width g) stim cycle_steps cols)"
    using assms by (simp add: stimulus_def)
  show "is_mat (stim + cycle_steps) (g_N g)
           (pulse (g_N g) (g_alpha g) (g_stim_width g) stim cycle_steps cols)"
    by (rule is_mat_pulse)
next
  fix t j assume "t < stim + cycle_steps \<and> j < g_N g"
  then show "pulse (g_N g) (g_alpha g) (g_stim_width g) stim cycle_steps cols ! t ! j
               = (if stim \<le> t \<and> t < stim + g_stim_width g \<and> j \<in> set cols
                  then g_alpha g else 0)"
    by (simp add: pulse_nth)
next
  fix signals inputs net'
  assume gs: "get_signals sim gf g stim_onsets cycle_steps sr net y0 inp_indices sigma
               = Inr (signals, inputs, net')"
  let ?f = "run_trial sim gf g cycle_steps sr y0 inp_indices sigma (steps_of cycle_steps sr)"
  have tr: "trials ?f stim_onsets net = Inr (signals, inputs, net')"
    using gs by (simp add: get_signals_def split: if_splits)
  show "run_log net' = run_log net
          @ map (\<lambda>onset. gf sigma
                   (pulse (g_N g) (g_alpha g) (g_stim_width g) onset cycle_steps cols))
              stim_onsets"
  proof (rule trials_log [OF tr])
    fix n s sig tr n1
    assume "?f n s = Inr (sig, tr, n1)"
    then obtain cols' where "map_err (norm_index (g_N g)) inp_indices = Inr cols'"
      and "run_log n1 = run_log n
       @ [gf sigma (pulse (g_N g) (g_alpha g) (g_stim_width g) s cycle_steps cols')]"
      by (rule run_trial_Inr)
    with assms show "run_log n1 = run_log n
       @ [gf sigma (pulse (g_N g) (g_alpha g) (g_stim_width g) s cycle_steps cols)]"
      by simp
  qed
qed

theorem stimulus_pulse_witness:
  "stimulus \<lparr>g_N = 3, g_alpha = 80, g_stim_width = 1\<rparr> 1 2 [0, - 1]
     = Inr [[0, 0, 0], [80, 0, 80], [0, 0, 0]]
   \<and> is_mat (1 + 2) 3 [[0, 0, 0], [80, 0, 80], [0, 0, 0]]
   \<and> [[0, 0, 0], [80, 0, 80], [0, 0, 0 :: real]] ! 1 ! 2 = 80
   \<and> [[0, 0, 0], [80, 0, 80], [0, 0, 0 :: real]] ! 1 ! 1 = 0
   \<and> get_signals echo_sim no_filter \<lparr>g_N = 3, g_alpha = 80, g_stim_width = 1\<rparr> [1] 2 1
       \<lparr>net_state = (), run_log = []\<rparr> () [0, - 1] 10 =
     Inr ([[[80, 0], [0, 0], [80, 0]]], [[80, 0]],
          \<lparr>net_state = (), run_log = [[[0, 0, 0], [80, 0, 80], [0, 0, 0]]]\<rparr>)
   \<and> [[[0, 0, 0], [80, 0, 80], [0, 0, 0]]]
       = [] @ map (\<lambda>onset. no_filter 10 (pulse 3 80 1 onset 2 [0, 2])) [1]"
proof -
  let ?g = "\<lparr>g_N = 3, g_alpha = 80, g_stim_width = 1\<rparr>"
  let ?net = "\<lparr>net_state = (), run_log = []\<rparr>"
  have c: "map_err (norm_index (g_N ?g)) [0, - 1] = Inr [0, 2]"
    using cols_c by simp
  note t = stimulus_pulse [OF c, of 1 2 echo_sim no_filter "[1]" 1 ?net "()" 10]
  have p: "pulse (g_N ?g) (g_alpha ?g) (g_stim_width ?g) 1 2 [0, 2]
             = [[0, 0, 0], [80, 0, 80], [0, 0, 0]]"
    using pulse_c by simp
  from t have 1: "stimulus ?g 1 2 [0, - 1] = Inr [[0, 0, 0], [80, 0, 80], [0, 0, 0]]"
    unfolding p by blast
  from t have 2: "is_mat (1 + 2) 3 [[0, 0, 0], [80, 0, 80], [0, 0, 0]]"
    unfolding p by simp
  from t have "(1::nat) < 1 + 2 \<and> (2::nat) < g_N ?g \<longrightarrow>
      pulse (g_N ?g) (g_alpha ?g) (g_stim_width ?g) 1 2 [0, 2] ! 1 ! 2
      = (if (1::nat) \<le> 1 \<and> (1::nat) < 1 + g_stim_width ?g \<and> 2 \<in> set [0, 2::nat]
         then g_alpha ?g else 0)"
    by blast
  then have 3: "[[0, 0, 0], [80, 0, 80], [0, 0, 0 :: real]] ! 1 ! 2 = 80"
    unfolding p by simp
  have 4: "[[0, 0, 0], [80, 0, 80], [0, 0, 0 :: real]] ! 1 ! 1 = 0" by simp
  from t run_c have "run_log \<lparr>net_state = (), run_log = [[[0, 0, 0], [80, 0, 80], [0, 0, 0]]]\<rparr>
      = run_log ?net @ map (\<lambda>onset. no_filter 10
          (pulse (g_N ?g) (g_alpha ?g) (g_stim_width ?g) onset 2 [0, 2])) [1]"
    by blast
  then have 5: "[[[0, 0, 0], [80, 0, 80], [0, 0, 0]]]
       = [] @ map (\<lambda>onset. no_filter 10 (pulse 3 80 1 onset 2 [0, 2])) [1]"
    by simp
  from 1 2 3 4 5 run_c show ?thesis by blast
qed

text \<open>
  C5 as stated fails: for onset 1 and \<open>cycle_steps = 2\<close> the matrix has three rows, not
  \<open>cycle_steps\<close> rows.
\<close>

theorem stimulus_shape_counterexample:
  "stimulus \<lparr>g_N = 3, g_alpha = 80, g_stim_width = 1\<rparr> 1 2 [0, - 1]
     = Inr [[0, 0, 0], [80, 0, 80], [0, 0, 0]]
   \<and> \<not> is_mat 2 3 [[0, 0, 0], [80, 0, 80], [0, 0, 0]]"
  using stim_c by (simp add: is_mat_def)

text \<open>
  C8 (amended). \<open>get_signals\<close> makes no check of the onsets against a total length and
  raises no configuration error: the input of a trial is allocated with
  \<open>onset + cycle_steps\<close> rows, whatever the onset is. For a stride other than zero, valid
  channel indices (at least one) and a simulator that does not fail, it returns for
  every list of onsets, with one signal per onset, and the simulator has been run once
  per onset, in the order of the list, on the smoothed input of that onset; when the
  filter keeps the number of rows, these inputs have \<open>onset + cycle_steps\<close> rows.
\<close>

theorem get_signals_no_onset_check:
  assumes "sr \<noteq> 0" and "inp_indices \<noteq> []"
    and "map_err (norm_index (g_N g)) inp_indices = Inr cols"
    and "\<forall>st inp. \<exists>r. sim st inp sr = Inr r"
  shows "\<exists>signals inputs net'.
           get_signals sim gf g stim_onsets cycle_steps sr net y0 inp_indices sigma
             = Inr (signals, inputs, net')
           \<and> length signals = length stim_onsets
           \<and> run_log net' = run_log net
               @ map (\<lambda>onset. gf sigma
                        (pulse (g_N g) (g_alpha g) (g_stim_width g) onset cycle_steps cols))
                   stim_onsets
           \<and> map (\<lambda>onset. length
                        (pulse (g_N g) (g_alpha g) (g_stim_width g) onset cycle_steps cols))
                   stim_onsets
               = map (\<lambda>onset. onset + cycle_steps) stim_onsets
           \<and> ((\<forall>s M. length (gf s M) = length M) \<longrightarrow>
                map length (drop (length (run_log net)) (run_log net'))
                  = map (\<lambda>onset. onset + cycle_steps) stim_onsets)"
proof -
  let ?f = "run_trial sim gf g cycle_steps sr y0 inp_indices sigma (steps_of cycle_steps sr)"
  let ?p = "\<lambda>onset. pulse (g_N g) (g_alpha g) (g_stim_width g) onset cycle_steps cols"
  have "\<And>n s. \<exists>r. ?f n s = Inr r"
    using assms by (intro run_trial_returns) auto
  then have "\<exists>r. trials ?f stim_onsets net = Inr r" by (rule trials_returns)
  then obtain signals inputs net' where tr: "trials ?f stim_onsets net = Inr (signals, inputs, net')"
    by (metis prod_cases3)
  have l: "length signals = length stim_onsets"
    using trials_all [OF tr, of "\<lambda>_. True"] by simp
  have lg: "run_log net' = run_log net @ map (\<lambda>onset. gf sigma (?p onset)) stim_onsets"
  proof (rule trials_log [OF tr])
    fix n s sig tr n1
    assume "?f n s = Inr (sig, tr, n1)"
    then obtain cols' where "map_err (norm_index (g_N g)) inp_indices = Inr cols'"
      and "run_log n1 = run_log n
       @ [gf sigma (pulse (g_N g) (g_alpha g) (g_stim_width g) s cycle_steps cols')]"
      by (rule run_trial_Inr)
    with assms(3) show "run_log n1 = run_log n @ [gf sigma (?p s)]"
      by simp
  qed
  have pl: "map (\<lambda>onset. length (?p onset)) stim_onsets
              = map (\<lambda>onset. onset + cycle_steps) stim_onsets"
    by (simp add: pulse_length)
  have rows: "map length (drop (length (run_log net)) (run_log net'))
                  = map (\<lambda>onset. onset + cycle_steps) stim_onsets"
    if "\<forall>s M. length (gf s M) = length M"
    using that by (simp add: lg pulse_length comp_def)
  have gs: "get_signals sim gf g stim_onsets cycle_steps sr net y0 inp_indices sigma
             = Inr (signals, inputs, net')"
    using tr assms(1) by (simp add: get_signals_def)
  from gs l lg pl rows show ?thesis by blast
qed

theorem get_signals_no_onset_check_witness:
  "get_signals echo_sim no_filter \<lparr>g_N = 2, g_alpha = 80, g_stim_width = 1\<rparr> [0, 3] 2 1
       \<lparr>net_state = (), run_log = []\<rparr> () [1] 10 =
     Inr ([[[0, 0], [80, 0]], [[0, 0], [80, 0]]], [[80, 0], [80, 0]],
          \<lparr>net_state = (),
             run_log = [[[0, 80], [0, 0]], [[0, 0], [0, 0], [0, 0], [0, 80], [0, 0]]]\<rparr>)
   \<and> length [[[0, 0], [80, 0]], [[0, 0], [80, 0 :: real]]] = length [0, 3 :: nat]
   \<and> [[[0, 80], [0, 0]], [[0, 0], [0, 0], [0, 0], [0, 80], [0, 0]]]
       = [no_filter 10 (pulse 2 80 1 0 2 [1]), no_filter 10 (pulse 2 80 1 3 2 [1])]
   \<and> map length [[[0, 80], [0, 0]], [[0, 0], [0, 0], [0, 0], [0, 80], [0, 0 :: real]]]
       = [0 + 2, 3 + 2]"
proof -
  let ?g = "\<lparr>g_N = 2, g_alpha = 80, g_stim_width = 1\<rparr>"
  let ?net = "\<lparr>net_state = (), run_log = []\<rparr> :: unit network"
  have h1: "(1::nat) \<noteq> 0" and h2: "[1::int] \<noteq> []"
    and h3: "map_err (norm_index (g_N ?g)) [1] = Inr [1]"
    and h4: "\<forall>st inp. \<exists>r. echo_sim st inp 1 = Inr r"
    by (simp_all add: norm_index_def echo_sim_def)
  have h5: "\<forall>s M. length (no_filter s M) = length M" by (simp add: no_filter_def)
  note t = get_signals_no_onset_check [where sr = 1 and inp_indices = "[1]" and g = ?g
      and cols = "[1]" and sim = echo_sim and gf = no_filter and stim_onsets = "[0, 3]"
      and cycle_steps = 2 and net = ?net and sigma = 10, OF h1 h2 h3 h4]
  from t h5
  obtain signals inputs net' where
    r: "get_signals echo_sim no_filter ?g [0, 3] 2 1 ?net () [1] 10 = Inr (signals, inputs, net')"
    and l: "length signals = length [0, 3 :: nat]"
    and lg: "run_log net' = run_log ?net
               @ map (\<lambda>onset. no_filter 10
                        (pulse (g_N ?g) (g_alpha ?g) (g_stim_width ?g) onset 2 [1])) [0, 3]"
    and rows: "map length (drop (length (run_log ?net)) (run_log net'))
                  = map (\<lambda>onset. onset + 2) [0, 3]"
    by blast
  from r run_f have s: "signals = [[[0, 0], [80, 0]], [[0, 0], [80, 0]]]"
    and n: "net' = \<lparr>net_state = (),
             run_log = [[[0, 80], [0, 0]], [[0, 0], [0, 0], [0, 0], [0, 80], [0, 0]]]\<rparr>"
    by simp_all
  have a: "length [[[0, 0], [80, 0]], [[0, 0], [80, 0 :: real]]] = length [0, 3 :: nat]"
    using l unfolding s .
  have b: "[[[0, 80], [0, 0]], [[0, 0], [0, 0], [0, 0], [0, 80], [0, 0]]]
       = [no_filter 10 (pulse 2 80 1 0 2 [1]), no_filter 10 (pulse 2 80 1 3 2 [1])]"
    using lg unfolding n
    by (simp only: network.select_convs globals.select_convs list.map append_Nil)
  have c: "map length [[[0, 80], [0, 0]], [[0, 0], [0, 0], [0, 0], [0, 80], [0, 0 :: real]]]
       = [0 + 2, 3 + 2]"
    using rows unfolding n by simp
  from run_f a b c show ?thesis by blast
qed

text \<open>
  C8 as stated fails. With two trials and \<open>cycle_steps = 2\<close>, the onset \<open>3\<close> ends at
  step \<open>5\<close>, beyond the \<open>n_trials * cycle_steps = 4\<close> steps of the two cycles:
  nothing is raised, and the simulator is run on the input of 5 rows. With the onset
  \<open>2 = cycle_steps * (n_trials - 1)\<close> and a simulator of total length 3, which
  \<open>onset + cycle_steps = 4\<close> exceeds, the only error is the one that the simulator
  raises itself when it is run on the input of 4 rows.
\<close>

theorem get_signals_boundary_counterexample:
  "(3::nat) + 2 > length [0, 3 :: nat] * 2
   \<and> get_signals echo_sim no_filter \<lparr>g_N = 2, g_alpha = 80, g_stim_width = 1\<rparr> [0, 3] 2 1
       \<lparr>net_state = (), run_log = []\<rparr> () [1] 10 =
     Inr ([[[0, 0], [80, 0]], [[0, 0], [80, 0]]], [[80, 0], [80, 0]],
          \<lparr>net_state = (),
             run_log = [[[0, 80], [0, 0]], [[0, 0], [0, 0], [0, 0], [0, 80], [0, 0]]]\<rparr>)
   \<and> (2::nat) = 2 * (length [0, 2 :: nat] - 1) \<and> (2::nat) + 2 > 3
   \<and> get_signals (bounded_sim 3) no_filter \<lparr>g_N = 2, g_alpha = 80, g_stim_width = 1\<rparr> [0, 2] 2 1
       \<lparr>net_state = (), run_log = []\<rparr> () [1] 10 = Inl SimulatorError
   \<and> bounded_sim 3 () (no_filter 10 (pulse 2 80 1 2 2 [1])) 1 = Inl SimulatorError"
proof -
  have "bounded_sim 3 () (no_filter 10 (pulse 2 80 1 2 2 [1])) 1 = Inl SimulatorError"
    by code_simp
  with run_f run_g show ?thesis by simp
qed

section \<open>Properties of the regularised mean covariance\<close>

lemma dot_sum: "length u = n \<Longrightarrow> length v = n \<Longrightarrow> dot u v = (\<Sum>k<n. u ! k * v ! k)"
  by (simp add: dot_def sum_list_sum_nth atLeast0LessThan)

lemma transpose_m_nth:
  assumes "is_mat r c M" and "0 < r" and "j < c" and "i < r"
  shows "transpose_m M ! j ! i = M ! i ! j"
  using assms by (simp add: transpose_m_def is_mat_ncols is_mat_length)

lemma transpose_transpose:
  assumes "is_mat r c M" and "0 < r" and "0 < c"
  shows "transpose_m (transpose_m M) = M"
proof (rule mat_eqI [where r = r and c = c])
  have t: "is_mat c r (transpose_m M)" using assms(1,2) by (rule is_mat_transpose)
  show "is_mat r c (transpose_m (transpose_m M))" using t assms(3) by (rule is_mat_transpose)
  show "is_mat r c M" by fact
  fix i j assume ij: "i < r" "j < c"
  have "transpose_m (transpose_m M) ! i ! j = transpose_m M ! j ! i"
    using t assms(3) ij by (rule transpose_m_nth)
  also have "\<dots> = M ! i ! j" using assms(1,2) ij(2,1) by (rule transpose_m_nth)
  finally show "transpose_m (transpose_m M) ! i ! j = M ! i ! j" .
qed

lemma is_mat_eye: "is_mat n n (eye n)"
  by (rule is_matI) (simp_all add: eye_def)

lemma eye_nth: "i < n \<Longrightarrow> j < n \<Longrightarrow> eye n ! i ! j = (if i = j then 1 else 0)"
  by (simp add: eye_def)

lemma is_mat_cmat: "is_mat (length X) (length X) (cmat X a)"
  by (rule is_matI) (simp_all add: cmat_def)

lemma get_c_cmat:
  assumes X: "is_mat r c X" and r: "0 < r" and c: "0 < c"
  shows "get_c X a = Inr (cmat X a)"
proof -
  have t: "is_mat c r (transpose_m X)" using X r by (rule is_mat_transpose)
  have tt: "transpose_m (transpose_m X) = X" using X r c by (rule transpose_transpose)
  have chk: "list_all (\<lambda>row. length row = length (transpose_m X)) X"
    using X t by (simp add: is_mat_def)
  let ?P = "map (\<lambda>row. map (dot row) X) X"
  have mm: "matmul X (transpose_m X) = Inr ?P"
    using chk by (simp add: matmul_def tt)
  have P: "is_mat r r ?P" using X by (intro is_matI) (simp_all add: is_mat_length)
  have S: "is_mat r r (mat_scale a (eye r))"
    unfolding mat_scale_def by (rule is_mat_map_map) (rule is_mat_eye)
  let ?G = "mat_add ?P (mat_scale a (eye (length X)))"
  have lx: "length X = r" using X by (rule is_mat_length)
  have g: "get_c X a = Inr ?G" by (simp add: get_c_def mm)
  have G: "is_mat r r ?G" unfolding lx using P S by (rule is_mat_mat_add)
  have "?G = cmat X a"
  proof (rule mat_eqI [OF G])
    show "is_mat r r (cmat X a)" using is_mat_cmat [of X a] by (simp add: lx)
    fix i j assume ij: "i < r" "j < r"
    have "?G ! i ! j = ?P ! i ! j + mat_scale a (eye r) ! i ! j"
      unfolding lx using P S ij by (rule mat_add_nth)
    then show "?G ! i ! j = cmat X a ! i ! j"
      using ij lx by (simp add: mat_scale_def eye_def cmat_def)
  qed
  with g show ?thesis by simp
qed

lemma map_err_get_c:
  assumes "list_all (is_mat r c) Ss" and "0 < r" and "0 < c"
  shows "map_err (\<lambda>s. get_c s a) Ss = Inr (map (\<lambda>s. cmat s a) Ss)"
  using assms(1)
proof (induction Ss)
  case Nil
  then show ?case by simp
next
  case (Cons s Ss)
  then have "get_c s a = Inr (cmat s a)" using assms(2,3) by (simp add: get_c_cmat [where r = r and c = c])
  with Cons show ?case by simp
qed

lemma mean_cov_props:
  assumes ne: "Ss \<noteq> []" and sh: "list_all (is_mat r c) Ss" and r: "0 < r" and c: "0 < c"
  obtains C where "mean_cov Ss a = Inr C" and "is_mat r r C"
    and "\<And>i j. i < r \<Longrightarrow> j < r \<Longrightarrow> C ! i ! j = cbar Ss i j + a * (if i = j then 1 else 0)"
proof -
  let ?cs = "map (\<lambda>s. cmat s a) Ss"
  have cs: "?cs \<noteq> []" "list_all (is_mat r r) ?cs"
  proof -
    show "?cs \<noteq> []" using ne by simp
    have "is_mat r r (cmat s a)" if "s \<in> set Ss" for s
    proof -
      have "length s = r" using sh that by (auto simp: list_all_iff is_mat_length)
      then show ?thesis using is_mat_cmat [of s a] by simp
    qed
    then show "list_all (is_mat r r) ?cs" by (simp add: list_all_iff)
  qed
  obtain C where C: "mean_axis0 ?cs = Inr C" using mean_axis0_eq [OF cs] by simp
  note p = mean_axis0_props [OF cs C]
  have mc: "mean_cov Ss a = Inr C"
    using map_err_get_c [OF sh r c, of a] C by (simp add: mean_cov_def)
  have "C ! i ! j = cbar Ss i j + a * (if i = j then 1 else 0)" if ij: "i < r" "j < r" for i j
  proof -
    have n: "real (length Ss) \<noteq> 0" using ne by simp
    have "(\<Sum>M\<leftarrow>?cs. M ! i ! j)
        = (\<Sum>s\<leftarrow>Ss. dot (s ! i) (s ! j) + a * (if i = j then 1 else 0))"
    proof -
      have "cmat s a ! i ! j = dot (s ! i) (s ! j) + a * (if i = j then 1 else 0)"
        if "s \<in> set Ss" for s
      proof -
        have "length s = r" using sh that by (auto simp: list_all_iff is_mat_length)
        then show ?thesis using ij by (simp add: cmat_def)
      qed
      then show ?thesis by (simp add: comp_def cong: map_cong)
    qed
    also have "\<dots> = (\<Sum>s\<leftarrow>Ss. dot (s ! i) (s ! j))
        + real (length Ss) * (a * (if i = j then 1 else 0))"
      by (simp add: sum_list_addf sum_list_triv)
    finally show ?thesis
      using p(2) [OF ij] n by (simp add: cbar_def add_divide_distrib)
  qed
  with mc p(1) show ?thesis by (rule that)
qed

lemma quad_form_sum:
  assumes "is_mat r r C" and "length x = r"
  shows "quad_form C x = (\<Sum>i<r. \<Sum>j<r. x ! i * C ! i ! j * x ! j)"
proof -
  have "quad_form C x = (\<Sum>i<r. x ! i * map (\<lambda>row. dot row x) C ! i)"
    unfolding quad_form_def using assms by (intro dot_sum) (simp_all add: is_mat_length)
  also have "\<dots> = (\<Sum>i<r. x ! i * (\<Sum>j<r. C ! i ! j * x ! j))"
  proof (rule sum.cong [OF refl])
    fix i assume "i \<in> {..<r}"
    then have i: "i < r" by simp
    have "dot (C ! i) x = (\<Sum>j<r. C ! i ! j * x ! j)"
      using assms i by (intro dot_sum) (simp_all add: is_mat_nth)
    then show "x ! i * map (\<lambda>row. dot row x) C ! i = x ! i * (\<Sum>j<r. C ! i ! j * x ! j)"
      using assms(1) i by (simp add: is_mat_length)
  qed
  also have "\<dots> = (\<Sum>i<r. \<Sum>j<r. x ! i * C ! i ! j * x ! j)"
    by (simp add: sum_distrib_left mult.assoc)
  finally show ?thesis .
qed

lemma dot_self_sum: "length x = r \<Longrightarrow> dot x x = (\<Sum>i<r. (x ! i)\<^sup>2)"
  by (simp add: dot_sum [where n = r] power2_eq_square)

lemma dot_self_nonneg: "0 \<le> dot x x"
  by (simp add: dot_self_sum [OF refl] sum_nonneg)

lemma quad_form_shift:
  assumes C: "is_mat r r C" and x: "length x = r"
    and e: "\<And>i j. i < r \<Longrightarrow> j < r \<Longrightarrow> C ! i ! j = cbar Ss i j + a * (if i = j then 1 else 0)"
  shows "quad_form C x = Q0 Ss r x + a * dot x x"
proof -
  have "quad_form C x = (\<Sum>i<r. \<Sum>j<r. x ! i * C ! i ! j * x ! j)"
    using C x by (rule quad_form_sum)
  also have "\<dots> = (\<Sum>i<r. \<Sum>j<r. x ! i * cbar Ss i j * x ! j
                                + a * (if i = j then x ! i * x ! j else 0))"
    by (intro sum.cong refl) (simp add: e algebra_simps)
  also have "\<dots> = Q0 Ss r x + (\<Sum>i<r. \<Sum>j<r. a * (if i = j then x ! i * x ! j else 0))"
    by (simp add: sum.distrib Q0_def)
  also have "(\<Sum>i<r. \<Sum>j<r. a * (if i = j then x ! i * x ! j else 0))
      = (\<Sum>i<r. a * (x ! i)\<^sup>2)"
  proof (rule sum.cong [OF refl])
    fix i assume "i \<in> {..<r}"
    then have "(\<Sum>j<r. if i = j then x ! i * x ! j else 0) = x ! i * x ! i"
      by (simp add: sum.delta')
    then show "(\<Sum>j<r. a * (if i = j then x ! i * x ! j else 0)) = a * (x ! i)\<^sup>2"
      by (simp add: sum_distrib_left [symmetric] power2_eq_square)
  qed
  also have "\<dots> = a * dot x x"
    using x by (simp add: dot_self_sum sum_distrib_left)
  finally show ?thesis .
qed

lemma sum_sum_list_swap:
  "(\<Sum>i\<in>A. \<Sum>s\<leftarrow>xs. f i s) = (\<Sum>s\<leftarrow>xs. \<Sum>i\<in>A. f i s)"
  by (induction xs) (simp_all add: sum.distrib)

lemma gram_quad:
  assumes s: "is_mat r c s" and x: "length x = r"
  shows "(\<Sum>i<r. \<Sum>j<r. x ! i * dot (s ! i) (s ! j) * x ! j)
       = (\<Sum>k<c. (\<Sum>i<r. x ! i * s ! i ! k)\<^sup>2)"
proof -
  have d: "dot (s ! i) (s ! j) = (\<Sum>k<c. s ! i ! k * s ! j ! k)" if "i < r" "j < r" for i j
    using s that by (intro dot_sum) (simp_all add: is_mat_nth)
  have "(\<Sum>i<r. \<Sum>j<r. x ! i * dot (s ! i) (s ! j) * x ! j)
      = (\<Sum>i<r. \<Sum>j<r. \<Sum>k<c. (x ! i * s ! i ! k) * (x ! j * s ! j ! k))"
    by (intro sum.cong refl) (simp add: d sum_distrib_left sum_distrib_right algebra_simps)
  also have "\<dots> = (\<Sum>i<r. \<Sum>k<c. \<Sum>j<r. (x ! i * s ! i ! k) * (x ! j * s ! j ! k))"
    by (rule sum.cong [OF refl]) (rule sum.swap)
  also have "\<dots> = (\<Sum>k<c. \<Sum>i<r. \<Sum>j<r. (x ! i * s ! i ! k) * (x ! j * s ! j ! k))"
    by (rule sum.swap)
  also have "\<dots> = (\<Sum>k<c. (\<Sum>i<r. x ! i * s ! i ! k)\<^sup>2)"
    by (simp add: power2_eq_square sum_product)
  finally show ?thesis .
qed

lemma Q0_nonneg:
  assumes sh: "list_all (is_mat r c) Ss" and x: "length x = r"
  shows "0 \<le> Q0 Ss r x"
proof -
  have "Q0 Ss r x
      = (\<Sum>i<r. \<Sum>j<r. \<Sum>s\<leftarrow>Ss. x ! i * dot (s ! i) (s ! j) * x ! j) / real (length Ss)"
    unfolding Q0_def cbar_def
    by (simp add: sum_divide_distrib sum_list_const_mult sum_list_mult_const)
  also have "(\<Sum>i<r. \<Sum>j<r. \<Sum>s\<leftarrow>Ss. x ! i * dot (s ! i) (s ! j) * x ! j)
      = (\<Sum>s\<leftarrow>Ss. \<Sum>i<r. \<Sum>j<r. x ! i * dot (s ! i) (s ! j) * x ! j)"
    by (simp add: sum_sum_list_swap)
  also have "\<dots> = (\<Sum>s\<leftarrow>Ss. \<Sum>k<c. (\<Sum>i<r. x ! i * s ! i ! k)\<^sup>2)"
    using sh x by (intro arg_cong [where f = sum_list] map_cong refl gram_quad)
      (auto simp: list_all_iff)
  finally have "Q0 Ss r x
      = (\<Sum>s\<leftarrow>Ss. \<Sum>k<c. (\<Sum>i<r. x ! i * s ! i ! k)\<^sup>2) / real (length Ss)" .
  moreover have "0 \<le> (\<Sum>s\<leftarrow>Ss. \<Sum>k<c. (\<Sum>i<r. x ! i * s ! i ! k)\<^sup>2)"
    by (intro sum_list_nonneg) (auto intro: sum_nonneg)
  ultimately show ?thesis by simp
qed

lemma abs_prod_le_dot:
  assumes "length x = r" and "i < r" and "j < r"
  shows "\<bar>x ! i * x ! j\<bar> \<le> dot x x"
proof -
  have m: "(x ! k)\<^sup>2 \<le> dot x x" if "k < r" for k
  proof -
    have "(x ! k)\<^sup>2 \<le> (\<Sum>i<r. (x ! i)\<^sup>2)"
      using that by (intro member_le_sum [where f = "\<lambda>i. (x ! i)\<^sup>2"]) simp_all
    then show ?thesis using assms(1) by (simp add: dot_self_sum)
  qed
  have "2 * \<bar>x ! i * x ! j\<bar> \<le> (x ! i)\<^sup>2 + (x ! j)\<^sup>2"
    using sum_squares_bound [of "\<bar>x ! i\<bar>" "\<bar>x ! j\<bar>"] by (simp add: abs_mult)
  also have "\<dots> \<le> 2 * dot x x" using m [OF assms(2)] m [OF assms(3)] by simp
  finally show ?thesis by simp
qed

lemma Q0_upper:
  assumes x: "length x = r"
  shows "Q0 Ss r x \<le> (\<Sum>i<r. \<Sum>j<r. \<bar>cbar Ss i j\<bar>) * dot x x"
proof -
  have "Q0 Ss r x \<le> (\<Sum>i<r. \<Sum>j<r. \<bar>cbar Ss i j\<bar> * dot x x)"
    unfolding Q0_def
  proof (intro sum_mono)
    fix i j assume "i \<in> {..<r}" "j \<in> {..<r}"
    then have ij: "i < r" "j < r" by simp_all
    have "x ! i * cbar Ss i j * x ! j \<le> \<bar>x ! i * cbar Ss i j * x ! j\<bar>" by (rule abs_ge_self)
    also have "\<dots> = \<bar>cbar Ss i j\<bar> * \<bar>x ! i * x ! j\<bar>" by (simp add: abs_mult)
    also have "\<dots> \<le> \<bar>cbar Ss i j\<bar> * dot x x"
      using abs_prod_le_dot [OF x ij] by (intro mult_left_mono) simp_all
    finally show "x ! i * cbar Ss i j * x ! j \<le> \<bar>cbar Ss i j\<bar> * dot x x" .
  qed
  then show ?thesis by (simp add: sum_distrib_right)
qed

lemma Sup_shift:
  fixes R :: "real set"
  assumes "R \<noteq> {}" and "bdd_above R"
  shows "Sup ((\<lambda>t. t + a) ` R) = Sup R + a"
proof (rule antisym)
  show "Sup ((\<lambda>t. t + a) ` R) \<le> Sup R + a"
  proof (rule cSup_least)
    show "(\<lambda>t. t + a) ` R \<noteq> {}" using assms(1) by simp
    fix y assume "y \<in> (\<lambda>t. t + a) ` R"
    then obtain t where "t \<in> R" "y = t + a" by auto
    then show "y \<le> Sup R + a" using cSup_upper [OF _ assms(2)] by simp
  qed
  have b: "bdd_above ((\<lambda>t. t + a) ` R)"
  proof -
    obtain u where u: "\<And>t. t \<in> R \<Longrightarrow> t \<le> u" using assms(2) by (auto simp: bdd_above_def)
    then have "\<And>y. y \<in> (\<lambda>t. t + a) ` R \<Longrightarrow> y \<le> u + a" by auto
    then show ?thesis by (auto simp: bdd_above_def)
  qed
  have "Sup R \<le> Sup ((\<lambda>t. t + a) ` R) - a"
  proof (rule cSup_least [OF assms(1)])
    fix t assume "t \<in> R"
    then have "t + a \<le> Sup ((\<lambda>t. t + a) ` R)" by (intro cSup_upper b) simp
    then show "t \<le> Sup ((\<lambda>t. t + a) ` R) - a" by simp
  qed
  then show "Sup R + a \<le> Sup ((\<lambda>t. t + a) ` R)" by simp
qed

lemma Inf_shift:
  fixes R :: "real set"
  assumes "R \<noteq> {}" and "bdd_below R"
  shows "Inf ((\<lambda>t. t + a) ` R) = Inf R + a"
proof (rule antisym)
  show "Inf R + a \<le> Inf ((\<lambda>t. t + a) ` R)"
  proof (rule cInf_greatest)
    show "(\<lambda>t. t + a) ` R \<noteq> {}" using assms(1) by simp
    fix y assume "y \<in> (\<lambda>t. t + a) ` R"
    then obtain t where "t \<in> R" "y = t + a" by auto
    then show "Inf R + a \<le> y" using cInf_lower [OF _ assms(2)] by simp
  qed
  have b: "bdd_below ((\<lambda>t. t + a) ` R)"
  proof -
    obtain l where l: "\<And>t. t \<in> R \<Longrightarrow> l \<le> t" using assms(2) by (auto simp: bdd_below_def)
    then have "\<And>y. y \<in> (\<lambda>t. t + a) ` R \<Longrightarrow> l + a \<le> y" by auto
    then show ?thesis by (auto simp: bdd_below_def)
  qed
  have "Inf ((\<lambda>t. t + a) ` R) - a \<le> Inf R"
  proof (rule cInf_greatest [OF assms(1)])
    fix t assume "t \<in> R"
    then have "Inf ((\<lambda>t. t + a) ` R) \<le> t + a" by (intro cInf_lower b) simp
    then show "Inf ((\<lambda>t. t + a) ` R) - a \<le> t" by simp
  qed
  then show "Inf ((\<lambda>t. t + a) ` R) \<le> Inf R + a" by simp
qed

lemma ratio_mono:
  fixes m M a1 a2 :: real
  assumes "0 \<le> m" and "m \<le> M" and "0 < a2" and "a2 < a1"
  shows "(M + a1) / (m + a1) \<le> (M + a2) / (m + a2)"
proof -
  have p1: "0 < m + a1" and p2: "0 < m + a2" using assms by simp_all
  have "0 \<le> (M - m) * (a1 - a2)" using assms by simp
  then have "(M + a1) * (m + a2) \<le> (M + a2) * (m + a1)" by (simp add: algebra_simps)
  then show ?thesis using p1 p2 by (simp add: field_simps)
qed

lemma R0_nonempty: "0 < r \<Longrightarrow> R0 Ss r \<noteq> {}"
proof -
  assume "0 < r"
  then have "dot (replicate r 1) (replicate r 1) \<noteq> 0"
    by (simp add: dot_self_sum [where r = r])
  then have "replicate r 1 \<in> {x. length x = r \<and> dot x x \<noteq> 0}" by simp
  then show ?thesis unfolding R0_def by blast
qed

lemma R0_bounds:
  assumes "list_all (is_mat r c) Ss" and "t \<in> R0 Ss r"
  shows "0 \<le> t" and "t \<le> (\<Sum>i<r. \<Sum>j<r. \<bar>cbar Ss i j\<bar>)"
proof -
  obtain x where x: "length x = r" "dot x x \<noteq> 0" and t: "t = Q0 Ss r x / dot x x"
    using assms(2) by (auto simp: R0_def)
  have d: "0 < dot x x" using x(2) dot_self_nonneg [of x] by simp
  show "0 \<le> t" unfolding t using Q0_nonneg [OF assms(1) x(1)] d by simp
  show "t \<le> (\<Sum>i<r. \<Sum>j<r. \<bar>cbar Ss i j\<bar>)"
    unfolding t using Q0_upper [OF x(1), of Ss] d by (simp add: pos_divide_le_eq)
qed

lemma rayleigh_set_shift:
  assumes C: "is_mat r r C"
    and e: "\<And>i j. i < r \<Longrightarrow> j < r \<Longrightarrow> C ! i ! j = cbar Ss i j + a * (if i = j then 1 else 0)"
  shows "rayleigh_set C = (\<lambda>t. t + a) ` R0 Ss r"
proof -
  have l: "length C = r" using C by (rule is_mat_length)
  have "quad_form C x / dot x x = Q0 Ss r x / dot x x + a"
    if "length x = r" "dot x x \<noteq> 0" for x
    using quad_form_shift [OF C that(1) e] that(2) by (simp add: add_divide_distrib)
  then show ?thesis
    unfolding rayleigh_set_def R0_def l image_image by (intro image_cong refl) auto
qed

lemma cond_number_shift:
  assumes sh: "list_all (is_mat r c) Ss" and r: "0 < r"
    and C: "is_mat r r C"
    and e: "\<And>i j. i < r \<Longrightarrow> j < r \<Longrightarrow> C ! i ! j = cbar Ss i j + a * (if i = j then 1 else 0)"
  shows "cond_number C = (Sup (R0 Ss r) + a) / (Inf (R0 Ss r) + a)"
proof -
  have ne: "R0 Ss r \<noteq> {}" using r by (rule R0_nonempty)
  have ba: "bdd_above (R0 Ss r)" and bb: "bdd_below (R0 Ss r)"
    using R0_bounds [OF sh] by (auto simp: bdd_above_def bdd_below_def)
  have rs: "rayleigh_set C = (\<lambda>t. t + a) ` R0 Ss r"
    using C e by (rule rayleigh_set_shift)
  show ?thesis
    unfolding cond_number_def rs
    by (simp only: Sup_shift [OF ne ba] Inf_shift [OF ne bb])
qed

lemma R0_Inf_Sup:
  assumes sh: "list_all (is_mat r c) Ss" and r: "0 < r"
  shows "0 \<le> Inf (R0 Ss r)" and "Inf (R0 Ss r) \<le> Sup (R0 Ss r)"
proof -
  have ne: "R0 Ss r \<noteq> {}" using r by (rule R0_nonempty)
  have ba: "bdd_above (R0 Ss r)" and bb: "bdd_below (R0 Ss r)"
    using R0_bounds [OF sh] by (auto simp: bdd_above_def bdd_below_def)
  show "0 \<le> Inf (R0 Ss r)" using ne R0_bounds(1) [OF sh] by (intro cInf_greatest)
  obtain t where t: "t \<in> R0 Ss r" using ne by blast
  have "Inf (R0 Ss r) \<le> t" using t bb by (rule cInf_lower)
  also have "t \<le> Sup (R0 Ss r)" using t ba by (rule cSup_upper)
  finally show "Inf (R0 Ss r) \<le> Sup (R0 Ss r)" .
qed

lemma kernel_inverts_mean_cov:
  assumes "kernel np_inv train_signals gamma = Inr kr"
  shows "\<exists>C. mean_cov train_signals gamma = Inr C \<and> np_inv C = Inr (kr_C_inv kr)"
proof -
  from assms obtain cs C C_inv s_mean s_var w K G where
    "map_err (\<lambda>s. get_c s gamma) train_signals = Inr cs" "mean_axis0 cs = Inr C"
    "np_inv C = Inr C_inv"
    "kr = \<lparr>kr_s_mean = s_mean, kr_s_var = s_var, kr_C_inv = C_inv,
                  kr_w = w, kr_K = K, kr_G = G\<rparr>"
    by (auto simp: kernel_def bind_err_Inr split: if_splits)
  then show ?thesis by (simp add: mean_cov_def)
qed

lemma dot_commute: "dot u v = dot v u"
proof -
  have "map2 (*) u v = map2 (*) v u"
    by (induction u v rule: list_induct2') simp_all
  then show ?thesis by (simp add: dot_def)
qed

lemma mean_cov_sym_pos_def:
  assumes "train_signals \<noteq> []" and "list_all (is_mat r c) train_signals"
    and "0 < r" and "0 < c" and "0 < a" and "mean_cov train_signals a = Inr C"
  shows "is_mat r r C"
    and "\<And>i j. i < r \<Longrightarrow> j < r \<Longrightarrow> C ! i ! j = C ! j ! i"
    and "\<And>x. length x = r \<Longrightarrow> dot x x \<noteq> 0 \<Longrightarrow> 0 < quad_form C x"
proof -
  obtain C' where C': "mean_cov train_signals a = Inr C'" "is_mat r r C'"
    "\<And>i j. i < r \<Longrightarrow> j < r \<Longrightarrow>
       C' ! i ! j = cbar train_signals i j + a * (if i = j then 1 else 0)"
    using mean_cov_props [OF assms(1-4), of a] by blast
  have eq: "C' = C" using C'(1) assms(6) by simp
  show m: "is_mat r r C" using C'(2) eq by simp
  have e: "C ! i ! j = cbar train_signals i j + a * (if i = j then 1 else 0)"
    if "i < r" "j < r" for i j
    using C'(3) [OF that] eq by simp
  show "C ! i ! j = C ! j ! i" if "i < r" "j < r" for i j
  proof -
    have "cbar train_signals i j = cbar train_signals j i"
      by (simp add: cbar_def dot_commute)
    then show ?thesis using that by (auto simp: e)
  qed
  show "0 < quad_form C x" if x: "length x = r" "dot x x \<noteq> 0" for x
  proof -
    have "quad_form C x = Q0 train_signals r x + a * dot x x"
      using m x(1) e by (rule quad_form_shift)
    moreover have "0 \<le> Q0 train_signals r x" using assms(2) x(1) by (rule Q0_nonneg)
    moreover have "0 < dot x x" using x(2) dot_self_nonneg [of x] by simp
    ultimately show ?thesis using assms(5) by (simp add: add_nonneg_pos)
  qed
qed

lemma mean_cov_example_1: "mean_cov [[[1], [2]], [[3], [0]]] 1 = Inr [[6, 1], [1, 3]]"
  by (simp add: mean_cov_def get_c_def matmul_def transpose_m_def ncols_def dot_def mat_add_def
      mat_scale_def eye_def mean_axis0_def is_mat_def upt_rec)

lemma mean_cov_example_2: "mean_cov [[[1], [2]], [[3], [0]]] 2 = Inr [[7, 1], [1, 4]]"
  by (simp add: mean_cov_def get_c_def matmul_def transpose_m_def ncols_def dot_def mat_add_def
      mat_scale_def eye_def mean_axis0_def is_mat_def upt_rec)

text \<open>
  C7. For every non-empty list of training signals of one shape (at least one row and one
  column) and regularisation constants \<open>alpha1 > alpha2 > 0\<close>, the matrices
  \<open>C_bar + alpha1 I\<close> and \<open>C_bar + alpha2 I\<close> that the script would invert are computed,
  and the condition number of the first is at most that of the second.
\<close>

theorem cond_number_monotone:
  assumes "train_signals \<noteq> []" and "list_all (is_mat r c) train_signals"
    and "0 < r" and "0 < c" and "0 < alpha2" and "alpha2 < alpha1"
  shows "\<exists>C1 C2. mean_cov train_signals alpha1 = Inr C1
           \<and> mean_cov train_signals alpha2 = Inr C2
           \<and> cond_number C1 \<le> cond_number C2"
proof -
  obtain C1 where C1: "mean_cov train_signals alpha1 = Inr C1" "is_mat r r C1"
    "\<And>i j. i < r \<Longrightarrow> j < r \<Longrightarrow>
       C1 ! i ! j = cbar train_signals i j + alpha1 * (if i = j then 1 else 0)"
    using mean_cov_props [OF assms(1-4), of alpha1] by blast
  obtain C2 where C2: "mean_cov train_signals alpha2 = Inr C2" "is_mat r r C2"
    "\<And>i j. i < r \<Longrightarrow> j < r \<Longrightarrow>
       C2 ! i ! j = cbar train_signals i j + alpha2 * (if i = j then 1 else 0)"
    using mean_cov_props [OF assms(1-4), of alpha2] by blast
  let ?M = "Sup (R0 train_signals r)" and ?m = "Inf (R0 train_signals r)"
  have k1: "cond_number C1 = (?M + alpha1) / (?m + alpha1)"
    using assms(2,3) C1(2,3) by (rule cond_number_shift)
  have k2: "cond_number C2 = (?M + alpha2) / (?m + alpha2)"
    using assms(2,3) C2(2,3) by (rule cond_number_shift)
  have "(?M + alpha1) / (?m + alpha1) \<le> (?M + alpha2) / (?m + alpha2)"
    using R0_Inf_Sup [OF assms(2,3)] assms(5,6) by (rule ratio_mono)
  with C1(1) C2(1) k1 k2 show ?thesis by auto
qed

theorem cond_number_monotone_witness:
  "mean_cov [[[1], [2]], [[3], [0]]] 2 = Inr [[7, 1], [1, 4]]
   \<and> mean_cov [[[1], [2]], [[3], [0]]] 1 = Inr [[6, 1], [1, 3]]
   \<and> cond_number [[7, 1], [1, 4]] \<le> cond_number [[6, 1], [1, 3]]"
proof -
  have sh: "[[[1], [2]], [[3], [0]]] \<noteq> ([] :: matrix list)"
    "list_all (is_mat 2 1) [[[1], [2]], [[3], [0]]]" "0 < (2::nat)" "0 < (1::nat)"
    "(0::real) < 1" "(1::real) < 2"
    by (simp_all add: is_mat_def)
  from cond_number_monotone [OF sh] obtain C1 C2 where
    "mean_cov [[[1], [2]], [[3], [0]]] 2 = Inr C1" "mean_cov [[[1], [2]], [[3], [0]]] 1 = Inr C2"
    "cond_number C1 \<le> cond_number C2"
    by blast
  with mean_cov_example_1 mean_cov_example_2 show ?thesis by simp
qed

section \<open>Properties of dist\<close>

lemma exp_neg_in_range: "0 < x \<Longrightarrow> \<not> dbl_overflow (exp (- real_of_int x))"
proof -
  assume "0 < x"
  then have "exp (- real_of_int x) \<le> 1" by simp
  moreover have "(1::real) < 2 ^ 1024 - 2 ^ 970" by simp
  ultimately show ?thesis unfolding dbl_overflow_def by linarith
qed

lemma overflow_not_underflow: "dbl_overflow v \<Longrightarrow> \<not> dbl_underflow v"
proof -
  have "(1::real) / 2 ^ 1075 < 2 ^ 1024 - 2 ^ 970" by simp
  then show "dbl_overflow v \<Longrightarrow> \<not> dbl_underflow v"
    unfolding dbl_overflow_def dbl_underflow_def by linarith
qed

lemma range_examples:
  "\<not> dbl_overflow (real_of_int 10)" "dbl_overflow (real_of_int 10 powr 400)"
  "dbl_underflow (real_of_int 10 powr (- 400))"
  "\<not> dbl_overflow (real_of_int 2)" "\<not> dbl_overflow (real_of_int 2 powr 1)"
  "\<not> dbl_underflow (real_of_int 2 powr 1)" "\<not> dbl_overflow (1 / (real_of_int 2 powr 1))"
  "\<not> dbl_overflow (real_of_int 2 powr (- 1074))"
  "\<not> dbl_underflow (real_of_int 2 powr (- 1074))"
  "dbl_overflow (1 / (real_of_int 2 powr (- 1074)))"
  by (simp_all add: dbl_overflow_def dbl_underflow_def powr_minus field_simps)

text \<open>
  C9 (amended). \<open>dist\<close> raises a ValueError exactly when the method is neither "inverse"
  nor "exp". For \<open>x \<le> 0\<close> both methods return \<open>zero_val\<close>. For \<open>x > 0\<close>, "inverse"
  returns \<open>1 / x ^ inverse_pow\<close> as long as \<open>x\<close> and \<open>x ^ inverse_pow\<close> are in the
  range of a double and the quotient is; it raises an OverflowError when \<open>x\<close> or
  \<open>x ^ inverse_pow\<close> is beyond the largest double, a ZeroDivisionError when
  \<open>x ^ inverse_pow\<close> rounds to zero, and returns \<open>inf\<close> when only the quotient is beyond
  the largest double. For \<open>0 < x \<le> 2^63\<close>, "exp" returns \<open>exp (-x)\<close>; for a larger
  \<open>x\<close> it raises a TypeError.
\<close>

theorem dist_spec:
  "((\<exists>s. dist x method zero_val inverse_pow = Inl (ValueError s)) \<longleftrightarrow>
      method \<noteq> ''inverse'' \<and> method \<noteq> ''exp'')
   \<and> (method \<noteq> ''inverse'' \<and> method \<noteq> ''exp''
      \<longrightarrow> dist x method zero_val inverse_pow = Inl (ValueError ''Invalid method.''))
   \<and> (x \<le> 0 \<longrightarrow> dist x ''inverse'' zero_val inverse_pow = Inr (Fin zero_val)
                \<and> dist x ''exp'' zero_val inverse_pow = Inr (Fin zero_val))
   \<and> (0 < x \<and> \<not> dbl_overflow (real_of_int x)
        \<and> \<not> dbl_overflow (real_of_int x powr inverse_pow)
        \<and> \<not> dbl_underflow (real_of_int x powr inverse_pow)
        \<and> \<not> dbl_overflow (1 / (real_of_int x powr inverse_pow))
      \<longrightarrow> dist x ''inverse'' zero_val inverse_pow
            = Inr (Fin (1 / (real_of_int x powr inverse_pow))))
   \<and> (0 < x \<and> (dbl_overflow (real_of_int x) \<or> dbl_overflow (real_of_int x powr inverse_pow))
      \<longrightarrow> dist x ''inverse'' zero_val inverse_pow = Inl OverflowError)
   \<and> (0 < x \<and> \<not> dbl_overflow (real_of_int x)
        \<and> dbl_underflow (real_of_int x powr inverse_pow)
      \<longrightarrow> dist x ''inverse'' zero_val inverse_pow = Inl ZeroDivisionError)
   \<and> (0 < x \<and> \<not> dbl_overflow (real_of_int x)
        \<and> \<not> dbl_overflow (real_of_int x powr inverse_pow)
        \<and> \<not> dbl_underflow (real_of_int x powr inverse_pow)
        \<and> dbl_overflow (1 / (real_of_int x powr inverse_pow))
      \<longrightarrow> dist x ''inverse'' zero_val inverse_pow = Inr NonFin)
   \<and> (0 < x \<and> x \<le> 2 ^ 63 \<longrightarrow> dist x ''exp'' zero_val inverse_pow
                                 = Inr (Fin (exp (- real_of_int x))))
   \<and> (2 ^ 63 < x \<longrightarrow> dist x ''exp'' zero_val inverse_pow = Inl TypeError)"
proof (intro conjI impI)
  show "(\<exists>s. dist x method zero_val inverse_pow = Inl (ValueError s)) \<longleftrightarrow>
      method \<noteq> ''inverse'' \<and> method \<noteq> ''exp''"
    by (auto simp: dist_def float_pow_def float_recip_def np_exp_def split: if_splits)
  show "dist x method zero_val inverse_pow = Inl (ValueError ''Invalid method.'')"
    if "method \<noteq> ''inverse'' \<and> method \<noteq> ''exp''"
    using that by (simp add: dist_def)
  show "dist x ''inverse'' zero_val inverse_pow = Inr (Fin zero_val)" if "x \<le> 0"
    using that by (simp add: dist_def)
  show "dist x ''exp'' zero_val inverse_pow = Inr (Fin zero_val)" if "x \<le> 0"
    using that by (simp add: dist_def)
  show "dist x ''inverse'' zero_val inverse_pow = Inr (Fin (1 / (real_of_int x powr inverse_pow)))"
    if "0 < x \<and> \<not> dbl_overflow (real_of_int x)
        \<and> \<not> dbl_overflow (real_of_int x powr inverse_pow)
        \<and> \<not> dbl_underflow (real_of_int x powr inverse_pow)
        \<and> \<not> dbl_overflow (1 / (real_of_int x powr inverse_pow))"
    using that by (simp add: dist_def float_pow_def float_recip_def)
  show "dist x ''inverse'' zero_val inverse_pow = Inl OverflowError"
    if "0 < x \<and> (dbl_overflow (real_of_int x) \<or> dbl_overflow (real_of_int x powr inverse_pow))"
    using that by (auto simp: dist_def float_pow_def)
  show "dist x ''inverse'' zero_val inverse_pow = Inl ZeroDivisionError"
    if "0 < x \<and> \<not> dbl_overflow (real_of_int x)
        \<and> dbl_underflow (real_of_int x powr inverse_pow)"
    using that overflow_not_underflow [of "real_of_int x powr inverse_pow"]
    by (auto simp: dist_def float_pow_def float_recip_def)
  show "dist x ''inverse'' zero_val inverse_pow = Inr NonFin"
    if "0 < x \<and> \<not> dbl_overflow (real_of_int x)
        \<and> \<not> dbl_overflow (real_of_int x powr inverse_pow)
        \<and> \<not> dbl_underflow (real_of_int x powr inverse_pow)
        \<and> dbl_overflow (1 / (real_of_int x powr inverse_pow))"
    using that by (simp add: dist_def float_pow_def float_recip_def)
  show "dist x ''exp'' zero_val inverse_pow = Inr (Fin (exp (- real_of_int x)))"
    if "0 < x \<and> x \<le> 2 ^ 63"
    using that exp_neg_in_range [of x] by (simp add: dist_def np_exp_def)
  show "dist x ''exp'' zero_val inverse_pow = Inl TypeError" if "2 ^ 63 < x"
  proof -
    have "0 < x" using that by (rule less_trans [rotated]) simp
    then show ?thesis using that by (simp add: dist_def np_exp_def)
  qed
qed

text \<open>
  With the method "inverse", which is valid, \<open>dist\<close> raises: \<open>10 ** 400.0\<close> is an
  OverflowError, and \<open>10 ** -400.0\<close> is \<open>0.0\<close>, whose reciprocal is a
  ZeroDivisionError.
\<close>

theorem dist_inverse_raises_counterexample:
  "dist 10 ''inverse'' 1 400 = Inl OverflowError
   \<and> dist 10 ''inverse'' 1 (- 400) = Inl ZeroDivisionError"
proof -
  have "dist 10 ''inverse'' 1 400 = Inl OverflowError"
    using range_examples(2) unfolding dist_def float_pow_def by simp
  moreover have "dist 10 ''inverse'' 1 (- 400) = Inl ZeroDivisionError"
    using range_examples(1,3) overflow_not_underflow [OF _, of "real_of_int 10 powr (- 400)"]
    unfolding dist_def float_pow_def float_recip_def by auto
  ultimately show ?thesis by blast
qed


theorem dist_spec_witness:
  "dist 2 ''inverse'' 1 1 = Inr (Fin (1 / 2))
   \<and> dist 0 ''inverse'' 7 1 = Inr (Fin 7)
   \<and> dist (- 3) ''exp'' 7 1 = Inr (Fin 7)
   \<and> dist 2 ''exp'' 7 1 = Inr (Fin (exp (- 2)))
   \<and> dist 2 ''gauss'' 1 1 = Inl (ValueError ''Invalid method.'')
   \<and> dist 10 ''inverse'' 1 400 = Inl OverflowError
   \<and> dist 10 ''inverse'' 1 (- 400) = Inl ZeroDivisionError
   \<and> dist 2 ''inverse'' 1 (- 1074) = Inr NonFin
   \<and> dist (2 ^ 63 + 1) ''exp'' 1 1 = Inl TypeError"
proof -
  have p2: "0 < (2::int)" and p10: "0 < (10::int)" by simp_all
  have "dist 2 ''inverse'' 1 1 = Inr (Fin (1 / (real_of_int 2 powr 1)))"
    using dist_spec [of 2 "''inverse''" 1 1] p2 range_examples(4-7) by blast
  then have a: "dist 2 ''inverse'' 1 1 = Inr (Fin (1 / 2))" by simp
  have "(0::int) \<le> 0" by simp
  with dist_spec [of 0 "''inverse''" 7 1]
  have b: "dist 0 ''inverse'' 7 1 = Inr (Fin 7)" by blast
  have "(- 3::int) \<le> 0" by simp
  with dist_spec [of "- 3" "''exp''" 7 1]
  have c: "dist (- 3) ''exp'' 7 1 = Inr (Fin 7)" by blast
  have "0 < (2::int) \<and> (2::int) \<le> 2 ^ 63" by simp
  with dist_spec [of 2 "''exp''" 7 1]
  have "dist 2 ''exp'' 7 1 = Inr (Fin (exp (- real_of_int 2)))" by blast
  then have d: "dist 2 ''exp'' 7 1 = Inr (Fin (exp (- 2)))" by simp
  have "''gauss'' \<noteq> ''inverse'' \<and> ''gauss'' \<noteq> ''exp''" by simp
  with dist_spec [of 2 "''gauss''" 1 1]
  have e: "dist 2 ''gauss'' 1 1 = Inl (ValueError ''Invalid method.'')" by blast
  have f: "dist 10 ''inverse'' 1 400 = Inl OverflowError"
    using dist_spec [of 10 "''inverse''" 1 400] p10 range_examples(2) by blast
  have g: "dist 10 ''inverse'' 1 (- 400) = Inl ZeroDivisionError"
    using dist_spec [of 10 "''inverse''" 1 "- 400"] p10 range_examples(1,3) by blast
  have h: "dist 2 ''inverse'' 1 (- 1074) = Inr NonFin"
    using dist_spec [of 2 "''inverse''" 1 "- 1074"] p2 range_examples(4,8-10) by blast
  have "(2::int) ^ 63 < 2 ^ 63 + 1" by simp
  with dist_spec [of "2 ^ 63 + 1" "''exp''" 1 1]
  have i: "dist (2 ^ 63 + 1) ''exp'' 1 1 = Inl TypeError" by blast
  from a b c d e f g h i show ?thesis by blast
qed

section \<open>Properties of auto\_dir\<close>

lemma starts_with_prefix: "starts_with p s \<longleftrightarrow> prefix p s"
  by (induction p s rule: starts_with.induct) auto

lemma str_contains_sublist: "str_contains sub s \<longleftrightarrow> sublist sub s"
  by (induction s) (auto simp: starts_with_prefix sublist_Cons_right)

text \<open>
  C10. The installation directory is the last command-line entry exactly when that
  entry does not contain ".py"; otherwise it is the hardcoded default. So a call without
  argument (argv is just the script's own name, which contains ".py") gives the default, a
  call with one argument free of ".py" gives that argument, and an argument containing
  ".py" gives the default.
\<close>

theorem auto_dir_spec:
  "(argv \<noteq> [] \<longrightarrow>
      auto_dir argv =
        Inr (if sublist ''.py'' (last argv) then ''~/PycharmProjects/auto-07p'' else last argv))
   \<and> (sublist ''.py'' script \<longrightarrow> auto_dir [script] = Inr ''~/PycharmProjects/auto-07p'')
   \<and> (\<not> sublist ''.py'' arg \<longrightarrow> auto_dir [script, arg] = Inr arg)
   \<and> (sublist ''.py'' arg \<longrightarrow> auto_dir [script, arg] = Inr ''~/PycharmProjects/auto-07p'')"
  by (simp add: auto_dir_def default_auto_dir_def str_contains_sublist)

theorem auto_dir_spec_witness:
  "auto_dir [''bifurcation_rs.py''] = Inr ''~/PycharmProjects/auto-07p''
   \<and> auto_dir [''bifurcation_rs.py'', ''/opt/auto''] = Inr ''/opt/auto''
   \<and> auto_dir [''bifurcation_rs.py'', ''/opt/my.py/auto''] = Inr ''~/PycharmProjects/auto-07p''"
proof -
  have a: "sublist ''.py'' ''bifurcation_rs.py''"
    by (simp add: str_contains_sublist [symmetric])
  have b: "\<not> sublist ''.py'' ''/opt/auto''"
    by (simp add: str_contains_sublist [symmetric])
  have c: "sublist ''.py'' ''/opt/my.py/auto''"
    by (simp add: str_contains_sublist [symmetric])
  note t1 = auto_dir_spec [of "[''bifurcation_rs.py'']" "''bifurcation_rs.py''" "''/opt/auto''"]
  note t2 = auto_dir_spec [of "[''bifurcation_rs.py'']" "''bifurcation_rs.py''" "''/opt/my.py/auto''"]
  from t1 a have "auto_dir [''bifurcation_rs.py''] = Inr ''~/PycharmProjects/auto-07p''"
    by blast
  moreover from t1 b
  have "auto_dir [''bifurcation_rs.py'', ''/opt/auto''] = Inr ''/opt/auto''"
    by blast
  moreover from t2 c
  have "auto_dir [''bifurcation_rs.py'', ''/opt/my.py/auto''] = Inr ''~/PycharmProjects/auto-07p''"
    by blast
  ultimately show ?thesis by blast
qed

end
